theory Spec2Isabelle
  imports Complex_Main "HOL-Library.AList"
begin

section \<open>Numbers\<close>

text \<open>
  The program computes on JavaScript numbers. They are modelled as \<^typ>\<open>real\<close>:
  every arithmetic operation is the exact one, there is no rounding error, no NaN and no
  infinity. Loop counters that the source compares with an iteration bound are
  \<^typ>\<open>nat\<close>.
\<close>

text \<open>\<^verbatim>\<open>Math.round(x)\<close> rounds half up: it is \<open>floor (x + 0.5)\<close>.\<close>

definition Math_round :: "real \<Rightarrow> real" where
  "Math_round x = of_int \<lfloor>x + 1 / 2\<rfloor>"

text \<open>The remainder operator \<^verbatim>\<open>%\<close> of JavaScript truncates the quotient towards zero.\<close>

definition js_rem :: "real \<Rightarrow> real \<Rightarrow> real" where
  "js_rem x y = x - y * of_int (if 0 \<le> x / y then \<lfloor>x / y\<rfloor> else \<lceil>x / y\<rceil>)"

section \<open>Colour math (external collaborator)\<close>

text \<open>
  The module \<^verbatim>\<open>okhsl-color-math\<close> is imported by the solver and the resolver; the two
  conversions they call are parameters of the model.
\<close>

type_synonym rgb = "real \<times> real \<times> real"

record ColorMath =
  okhslToLinearSrgb :: "real \<Rightarrow> real \<Rightarrow> real \<Rightarrow> rgb"
  relativeLuminanceFromLinearRgb :: "rgb \<Rightarrow> real"

text \<open>
  Modelled from the spec: \<^verbatim>\<open>contrastRatioFromLuminance\<close> of \<^verbatim>\<open>okhsl-color-math\<close>,
  given as \<open>contrastRatio(Y1,Y2) = (max(Y1,Y2)+0.05)/(min(Y1,Y2)+0.05)\<close>.
\<close>

definition contrastRatioFromLuminance :: "real \<Rightarrow> real \<Rightarrow> real" where
  "contrastRatioFromLuminance y1 y2 = (max y1 y2 + 0.05) / (min y1 y2 + 0.05)"

section \<open>Contrast solver\<close>

subsection \<open>Types and preset mapping\<close>

datatype ContrastPreset = AA | AAA | AA_large | AAA_large

datatype MinContrast = Num real | Preset ContrastPreset

datatype Branch = Lighter | Darker | Preferred

record FindLightnessForContrastOptions =
  o_hue :: real
  o_saturation :: real
  o_preferredLightness :: real
  o_baseLinearRgb :: rgb
  o_contrast :: MinContrast
  o_lightnessRange :: "(real \<times> real) option"
  o_epsilon :: "real option"
  o_maxIterations :: "nat option"

record BranchResult =
  res_lightness :: real
  res_contrast :: real
  met :: bool

record FindLightnessForContrastResult = BranchResult +
  branch :: Branch

fun CONTRAST_PRESETS :: "ContrastPreset \<Rightarrow> real" where
  "CONTRAST_PRESETS AA = 4.5"
| "CONTRAST_PRESETS AAA = 7"
| "CONTRAST_PRESETS AA_large = 3"
| "CONTRAST_PRESETS AAA_large = 4.5"

fun resolveMinContrast :: "MinContrast \<Rightarrow> real" where
  "resolveMinContrast (Num v) = max 1 v"
| "resolveMinContrast (Preset p) = CONTRAST_PRESETS p"

subsection \<open>Luminance cache\<close>

text \<open>
  The module-level \<^verbatim>\<open>luminanceCache\<close> (a Map) and \<^verbatim>\<open>cacheOrder\<close> (an array) are the
  state every solver function takes and returns. The key string
  \<^verbatim>\<open>`${h}|${s}|${lRounded}`\<close> is modelled by the triple it prints.
  \<^verbatim>\<open>Map.set\<close> is \<^const>\<open>AList.update\<close>: replace in place or append.
\<close>

type_synonym cache_key = "real \<times> real \<times> real"

record LumCache =
  luminanceCache :: "(cache_key \<times> real) list"
  cacheOrder :: "cache_key list"

definition CACHE_SIZE :: nat where
  "CACHE_SIZE = 512"

definition empty_cache :: LumCache where
  "empty_cache = \<lparr>luminanceCache = [], cacheOrder = []\<rparr>"

definition cachedLuminance ::
  "ColorMath \<Rightarrow> real \<Rightarrow> real \<Rightarrow> real \<Rightarrow> LumCache \<Rightarrow> real \<times> LumCache" where
  "cachedLuminance M h s l c =
    (let lRounded = Math_round (l * 10000) / 10000;
         key = (h, s, lRounded)
     in case map_of (luminanceCache c) key of
          Some cached \<Rightarrow> (cached, c)
        | None \<Rightarrow>
            (let linearRgb = okhslToLinearSrgb M h s lRounded;
                 y = relativeLuminanceFromLinearRgb M linearRgb;
                 c1 = (if length (luminanceCache c) \<ge> CACHE_SIZE
                       then (case cacheOrder c of
                               [] \<Rightarrow> c
                             | evict # rest \<Rightarrow>
                                 c\<lparr>luminanceCache := AList.delete evict (luminanceCache c),
                                   cacheOrder := rest\<rparr>)
                       else c)
             in (y, c1\<lparr>luminanceCache := AList.update key y (luminanceCache c1),
                       cacheOrder := cacheOrder c1 @ [key]\<rparr>)))"

subsection \<open>Solver\<close>

text \<open>The \<^verbatim>\<open>for\<close> loop of \<^verbatim>\<open>searchBranch\<close>; the first argument counts the rounds left.\<close>

fun searchBranch_loop ::
  "nat \<Rightarrow> ColorMath \<Rightarrow> real \<Rightarrow> real \<Rightarrow> real \<Rightarrow> real \<Rightarrow> real \<Rightarrow> real \<Rightarrow>
   real \<Rightarrow> real \<Rightarrow> LumCache \<Rightarrow> (real \<times> real) \<times> LumCache" where
  "searchBranch_loop 0 M h s yBase target eps pref low high c = ((low, high), c)"
| "searchBranch_loop (Suc n) M h s yBase target eps pref low high c =
    (if high - low < eps then ((low, high), c)
     else
       (let mid = (low + high) / 2;
            (yMid, c1) = cachedLuminance M h s mid c;
            crMid = contrastRatioFromLuminance yMid yBase
        in if crMid \<ge> target
           then (if mid < pref
                 then searchBranch_loop n M h s yBase target eps pref mid high c1
                 else searchBranch_loop n M h s yBase target eps pref low mid c1)
           else (if mid < pref
                 then searchBranch_loop n M h s yBase target eps pref low mid c1
                 else searchBranch_loop n M h s yBase target eps pref mid high c1)))"

definition STEPS :: nat where
  "STEPS = 64"

text \<open>
  The sampling loop of \<^verbatim>\<open>coarseScan\<close> over the indices still to visit; the state is
  \<open>(bestL, bestCr, bestMet)\<close> and the cache.
\<close>

fun coarseScan_samples ::
  "ColorMath \<Rightarrow> real \<Rightarrow> real \<Rightarrow> real \<Rightarrow> real \<Rightarrow> real \<Rightarrow> real \<Rightarrow> nat list \<Rightarrow>
   (real \<times> real \<times> bool) \<Rightarrow> LumCache \<Rightarrow> (real \<times> real \<times> bool) \<times> LumCache" where
  "coarseScan_samples M h s lo step yBase target [] best c = (best, c)"
| "coarseScan_samples M h s lo step yBase target (i # is) (bestL, bestCr, bestMet) c =
    (let l = lo + step * real i;
         (y, c1) = cachedLuminance M h s l c;
         cr = contrastRatioFromLuminance y yBase
     in if cr \<ge> target \<and> \<not> bestMet
        then coarseScan_samples M h s lo step yBase target is (l, cr, True) c1
        else if cr \<ge> target \<and> bestMet
        then coarseScan_samples M h s lo step yBase target is (l, cr, bestMet) c1
        else if \<not> bestMet \<and> cr > bestCr
        then coarseScan_samples M h s lo step yBase target is (l, cr, bestMet) c1
        else coarseScan_samples M h s lo step yBase target is (bestL, bestCr, bestMet) c1)"

text \<open>The refinement loop of \<^verbatim>\<open>coarseScan\<close>; the state is \<open>(rLo, rHi, bestL, bestCr)\<close>.\<close>

fun coarseScan_refine ::
  "nat \<Rightarrow> ColorMath \<Rightarrow> real \<Rightarrow> real \<Rightarrow> real \<Rightarrow> real \<Rightarrow> real \<Rightarrow>
   (real \<times> real \<times> real \<times> real) \<Rightarrow> LumCache \<Rightarrow> (real \<times> real \<times> real \<times> real) \<times> LumCache" where
  "coarseScan_refine 0 M h s yBase target eps st c = (st, c)"
| "coarseScan_refine (Suc n) M h s yBase target eps (rLo, rHi, bestL, bestCr) c =
    (if rHi - rLo < eps then ((rLo, rHi, bestL, bestCr), c)
     else
       (let mid = (rLo + rHi) / 2;
            (y, c1) = cachedLuminance M h s mid c;
            cr = contrastRatioFromLuminance y yBase
        in if cr \<ge> target
           then coarseScan_refine n M h s yBase target eps (rLo, mid, mid, cr) c1
           else coarseScan_refine n M h s yBase target eps (mid, rHi, bestL, bestCr) c1))"

definition coarseScan ::
  "ColorMath \<Rightarrow> real \<Rightarrow> real \<Rightarrow> real \<Rightarrow> real \<Rightarrow> real \<Rightarrow> real \<Rightarrow> real \<Rightarrow> nat \<Rightarrow>
   LumCache \<Rightarrow> BranchResult \<times> LumCache" where
  "coarseScan M h s lo hi yBase target eps maxIter c =
    (let step = (hi - lo) / real STEPS;
         ((bestL, bestCr, bestMet), c1) =
            coarseScan_samples M h s lo step yBase target [0 ..< Suc STEPS] (lo, 0, False) c
     in if bestMet \<and> bestL > lo + step
        then (let ((rLo, rHi, bestL', bestCr'), c2) =
                    coarseScan_refine maxIter M h s yBase target eps
                      (bestL - step, bestL, bestL, bestCr) c1
              in (\<lparr>res_lightness = bestL', res_contrast = bestCr', met = bestMet\<rparr>, c2))
        else (\<lparr>res_lightness = bestL, res_contrast = bestCr, met = bestMet\<rparr>, c1))"

definition searchBranch ::
  "ColorMath \<Rightarrow> real \<Rightarrow> real \<Rightarrow> real \<Rightarrow> real \<Rightarrow> real \<Rightarrow> real \<Rightarrow> real \<Rightarrow> nat \<Rightarrow> real \<Rightarrow>
   LumCache \<Rightarrow> BranchResult \<times> LumCache" where
  "searchBranch M h s lo hi yBase target eps maxIter pref c =
    (let (yLo, c1) = cachedLuminance M h s lo c;
         (yHi, c2) = cachedLuminance M h s hi c1;
         crLo = contrastRatioFromLuminance yLo yBase;
         crHi = contrastRatioFromLuminance yHi yBase
     in if crLo < target \<and> crHi < target
        then (if crLo \<ge> crHi
              then (\<lparr>res_lightness = lo, res_contrast = crLo, met = False\<rparr>, c2)
              else (\<lparr>res_lightness = hi, res_contrast = crHi, met = False\<rparr>, c2))
        else
          (let ((low, high), c3) =
                  searchBranch_loop maxIter M h s yBase target eps pref lo hi c2;
               (yLow, c4) = cachedLuminance M h s low c3;
               (yHigh, c5) = cachedLuminance M h s high c4;
               crLow = contrastRatioFromLuminance yLow yBase;
               crHigh = contrastRatioFromLuminance yHigh yBase;
               lowPasses = (crLow \<ge> target);
               highPasses = (crHigh \<ge> target)
           in if lowPasses \<and> highPasses
              then (if \<bar>low - pref\<bar> \<le> \<bar>high - pref\<bar>
                    then (\<lparr>res_lightness = low, res_contrast = crLow, met = True\<rparr>, c5)
                    else (\<lparr>res_lightness = high, res_contrast = crHigh, met = True\<rparr>, c5))
              else if lowPasses
              then (\<lparr>res_lightness = low, res_contrast = crLow, met = True\<rparr>, c5)
              else if highPasses
              then (\<lparr>res_lightness = high, res_contrast = crHigh, met = True\<rparr>, c5)
              else coarseScan M h s lo hi yBase target eps maxIter c5))"

text \<open>
  \<^verbatim>\<open>{ ...result, branch }\<close>: the branch result extended with the branch tag.
\<close>

text \<open>
  In \<^verbatim>\<open>findLightnessForContrast\<close> the two branch results are \<^verbatim>\<open>null\<close> or a result; the
  model matches on both at once. Where neither passes, the source collects the results that
  exist, darker first, sorts them by descending contrast with a stable sort and returns the
  first: the lighter result if its contrast is strictly higher, else the darker one.
  \<^verbatim>\<open>maxIterations\<close> is a natural number.
\<close>

definition with_branch :: "BranchResult \<Rightarrow> Branch \<Rightarrow> FindLightnessForContrastResult" where
  "with_branch r b = BranchResult.extend r (FindLightnessForContrastResult.fields b)"

definition findLightnessForContrast ::
  "ColorMath \<Rightarrow> FindLightnessForContrastOptions \<Rightarrow> LumCache \<Rightarrow>
   FindLightnessForContrastResult \<times> LumCache" where
  "findLightnessForContrast M options c =
    (let hue = o_hue options;
         saturation = o_saturation options;
         preferredLightness = o_preferredLightness options;
         lightnessRange = (case o_lightnessRange options of None \<Rightarrow> (0, 1) | Some r \<Rightarrow> r);
         eps = (case o_epsilon options of None \<Rightarrow> 1 / 10000 | Some e \<Rightarrow> e);
         maxIterations = (case o_maxIterations options of None \<Rightarrow> 14 | Some n \<Rightarrow> n);
         target = resolveMinContrast (o_contrast options);
         yBase = relativeLuminanceFromLinearRgb M (o_baseLinearRgb options);
         (yPref, c1) = cachedLuminance M hue saturation preferredLightness c;
         crPref = contrastRatioFromLuminance yPref yBase
     in if crPref \<ge> target
        then (\<lparr>res_lightness = preferredLightness, res_contrast = crPref, met = True,
                branch = Preferred\<rparr>, c1)
        else
          (let (minL, maxL) = lightnessRange;
               (darkerResult, c2) =
                  (if preferredLightness > minL
                   then (let (r, c') = searchBranch M hue saturation minL preferredLightness
                                         yBase target eps maxIterations preferredLightness c1
                         in (Some r, c'))
                   else (None, c1));
               (lighterResult, c3) =
                  (if preferredLightness < maxL
                   then (let (r, c') = searchBranch M hue saturation preferredLightness maxL
                                         yBase target eps maxIterations preferredLightness c2
                         in (Some r, c'))
                   else (None, c2));
               darkerPasses = (case darkerResult of Some r \<Rightarrow> met r | None \<Rightarrow> False);
               lighterPasses = (case lighterResult of Some r \<Rightarrow> met r | None \<Rightarrow> False)
           in case (darkerResult, lighterResult) of
                (Some d, Some l) \<Rightarrow>
                  if darkerPasses \<and> lighterPasses
                  then (if \<bar>res_lightness d - preferredLightness\<bar>
                             \<le> \<bar>res_lightness l - preferredLightness\<bar>
                        then (with_branch d Darker, c3)
                        else (with_branch l Lighter, c3))
                  else if darkerPasses then (with_branch d Darker, c3)
                  else if lighterPasses then (with_branch l Lighter, c3)
                  else (if res_contrast l > res_contrast d
                        then (with_branch l Lighter, c3)
                        else (with_branch d Darker, c3))
              | (Some d, None) \<Rightarrow> (with_branch d Darker, c3)
              | (None, Some l) \<Rightarrow> (with_branch l Lighter, c3)
              | (None, None) \<Rightarrow>
                  (\<lparr>res_lightness = preferredLightness, res_contrast = crPref, met = False,
                    branch = Preferred\<rparr>, c3)))"

section \<open>Colour definitions\<close>

text \<open>\<^verbatim>\<open>HCPair<T> = T | [T, T]\<close>: a value or a [normal, high-contrast] pair.\<close>

datatype 'a HCPair = Single 'a | Pair 'a 'a

text \<open>
  \<^verbatim>\<open>number | RelativeValue\<close>: a number, or a signed string \<^verbatim>\<open>'+N'\<close> / \<^verbatim>\<open>'-N'\<close>, which
  is carried as the number that \<^verbatim>\<open>parseFloat\<close> reads from it.
\<close>

datatype NumOrRel = Absolute real | Relative real

datatype AdaptationMode = Auto | Fixed | Static

record ColorDef =
  lightness :: "NumOrRel HCPair option"
  saturation :: "real option"
  hue :: "NumOrRel option"
  base :: "string option"
  contrast :: "MinContrast HCPair option"
  mode :: "AdaptationMode option"

text \<open>
  \<^verbatim>\<open>ColorMap = Record<string, ColorDef>\<close>: the entries in the order of \<^verbatim>\<open>Object.keys\<close>;
  the keys of an object are distinct.
\<close>

type_synonym ColorMap = "(string \<times> ColorDef) list"

record ResolvedColorVariant =
  v_h :: real
  v_s :: real
  v_l :: real

record ResolvedColor =
  name :: string
  light :: ResolvedColorVariant
  dark :: ResolvedColorVariant
  lightContrast :: ResolvedColorVariant
  darkContrast :: ResolvedColorVariant
  rc_mode :: AdaptationMode

text \<open>Every \<^verbatim>\<open>throw\<close> of the resolver, and the failures of the JavaScript runtime.\<close>

datatype error =
    ContrastWithoutBase string
  | RelativeLightnessWithoutBase string
  | UnknownBase string string
  | MissingPosition string
  | CircularBase string
  | BaseNotResolved string string
  | TypeError string
  | NotANumber string

fun pairNormal :: "'a HCPair \<Rightarrow> 'a" where
  "pairNormal (Single p) = p"
| "pairNormal (Pair p0 p1) = p0"

fun pairHC :: "'a HCPair \<Rightarrow> 'a" where
  "pairHC (Single p) = p"
| "pairHC (Pair p0 p1) = p1"

fun isAbsoluteLightness :: "NumOrRel HCPair option \<Rightarrow> bool" where
  "isAbsoluteLightness None = False"
| "isAbsoluteLightness (Some p) =
     (case pairNormal p of Absolute v \<Rightarrow> True | Relative v \<Rightarrow> False)"

text \<open>
  The truthiness of \<^verbatim>\<open>def.base\<close>: \<^verbatim>\<open>undefined\<close> and the empty string are falsy.
\<close>

fun truthy :: "string option \<Rightarrow> bool" where
  "truthy None = False"
| "truthy (Some b) = (b \<noteq> [])"

section \<open>Validation\<close>

text \<open>
  One round of the first loop of \<^verbatim>\<open>validateColorDefs\<close>; \<^verbatim>\<open>console.warn\<close> has no
  effect on the result and is left out.
\<close>

definition validate_entry :: "string list \<Rightarrow> string \<Rightarrow> ColorDef \<Rightarrow> error option" where
  "validate_entry names nm d =
    (if contrast d \<noteq> None \<and> \<not> truthy (base d) then Some (ContrastWithoutBase nm)
     else if lightness d \<noteq> None \<and> \<not> isAbsoluteLightness (lightness d) \<and> \<not> truthy (base d)
     then Some (RelativeLightnessWithoutBase nm)
     else if truthy (base d) \<and> the (base d) \<notin> set names
     then Some (UnknownBase nm (the (base d)))
     else if \<not> isAbsoluteLightness (lightness d) \<and> base d = None
     then Some (MissingPosition nm)
     else None)"

fun validate_entries :: "string list \<Rightarrow> ColorMap \<Rightarrow> error option" where
  "validate_entries names [] = None"
| "validate_entries names ((nm, d) # rest) =
     (case validate_entry names nm d of
        Some e \<Rightarrow> Some e
      | None \<Rightarrow> validate_entries names rest)"

text \<open>
  The condition \<^verbatim>\<open>def.base && !isAbsoluteLightness(def.lightness)\<close> under which
  \<^verbatim>\<open>dfs\<close> and \<^verbatim>\<open>visit\<close> follow the base edge, with the base it leads to.
\<close>

definition followedBase :: "ColorDef \<Rightarrow> string option" where
  "followedBase d =
    (if truthy (base d) \<and> \<not> isAbsoluteLightness (lightness d) then base d else None)"

text \<open>
  The inner function \<^verbatim>\<open>dfs\<close>. The sets \<^verbatim>\<open>inStack\<close> and \<^verbatim>\<open>visited\<close> are lists of
  their members; \<^verbatim>\<open>inStack\<close> is the same after a call that returns as before it, so only
  \<^verbatim>\<open>visited\<close> is returned. \<^verbatim>\<open>defs[name]\<close> of a name that is no key is
  \<^verbatim>\<open>undefined\<close>, and reading its \<^verbatim>\<open>base\<close> is a TypeError.
\<close>

function dfs :: "ColorMap \<Rightarrow> string list \<Rightarrow> string list \<Rightarrow> string \<Rightarrow> error + string list" where
  "dfs defs inStack visited nm =
    (if nm \<in> set inStack then Inl (CircularBase nm)
     else if nm \<in> set visited then Inr visited
     else (case map_of defs nm of
             None \<Rightarrow> Inl (TypeError nm)
           | Some d \<Rightarrow>
               (case followedBase d of
                  Some b \<Rightarrow>
                    (case dfs defs (inStack @ [nm]) visited b of
                       Inl e \<Rightarrow> Inl e
                     | Inr visited' \<Rightarrow> Inr (visited' @ [nm]))
                | None \<Rightarrow> Inr (visited @ [nm]))))"
  by pat_completeness auto
termination
proof (relation "measure (\<lambda>(defs, inStack, visited, nm). card (fst ` set defs - set inStack))")
  show "wf (measure (\<lambda>(defs, inStack, visited, nm). card (fst ` set defs - set inStack)))"
    by simp
next
  fix defs :: ColorMap and inStack visited :: "string list" and nm :: string and d b
  assume a: "nm \<notin> set inStack" "map_of defs nm = Some d"
  have "nm \<in> fst ` set defs"
    using a(2) by (metis map_of_eq_None_iff option.distinct(1))
  then have "fst ` set defs - set (inStack @ [nm]) \<subset> fst ` set defs - set inStack"
    using a(1) by auto
  then have "card (fst ` set defs - set (inStack @ [nm])) < card (fst ` set defs - set inStack)"
    by (intro psubset_card_mono) auto
  then show "((defs, inStack @ [nm], visited, b), (defs, inStack, visited, nm))
        \<in> measure (\<lambda>(defs, inStack, visited, nm). card (fst ` set defs - set inStack))"
    by simp
qed

fun dfs_all :: "ColorMap \<Rightarrow> string list \<Rightarrow> string list \<Rightarrow> error + string list" where
  "dfs_all defs [] visited = Inr visited"
| "dfs_all defs (nm # rest) visited =
     (case dfs defs [] visited nm of
        Inl e \<Rightarrow> Inl e
      | Inr visited' \<Rightarrow> dfs_all defs rest visited')"

definition validateColorDefs :: "ColorMap \<Rightarrow> error + unit" where
  "validateColorDefs defs =
    (let names = map fst defs
     in case validate_entries names defs of
          Some e \<Rightarrow> Inl e
        | None \<Rightarrow>
            (case dfs_all defs names [] of
               Inl e \<Rightarrow> Inl e
             | Inr visited \<Rightarrow> Inr ()))"

section \<open>Topological sort\<close>

text \<open>The inner function \<^verbatim>\<open>visit\<close>; the state is \<open>(visited, result)\<close>.\<close>

function visit ::
  "ColorMap \<Rightarrow> string \<Rightarrow> string list \<times> string list \<Rightarrow> error + string list \<times> string list" where
  "visit defs nm (visited, result) =
    (if nm \<in> set visited then Inr (visited, result)
     else (case map_of defs nm of
             None \<Rightarrow> Inl (TypeError nm)
           | Some d \<Rightarrow>
               (case followedBase d of
                  Some b \<Rightarrow>
                    (case visit defs b (visited @ [nm], result) of
                       Inl e \<Rightarrow> Inl e
                     | Inr (visited', result') \<Rightarrow> Inr (visited', result' @ [nm]))
                | None \<Rightarrow> Inr (visited @ [nm], result @ [nm]))))"
  by pat_completeness auto
termination
proof (relation "measure (\<lambda>(defs, nm, visited, result). card (fst ` set defs - set visited))")
  show "wf (measure (\<lambda>(defs, nm, visited, result). card (fst ` set defs - set visited)))"
    by simp
next
  fix defs :: ColorMap and visited result :: "string list" and nm :: string and d b
  assume a: "nm \<notin> set visited" "map_of defs nm = Some d"
  have "nm \<in> fst ` set defs"
    using a(2) by (metis map_of_eq_None_iff option.distinct(1))
  then have "fst ` set defs - set (visited @ [nm]) \<subset> fst ` set defs - set visited"
    using a(1) by auto
  then have "card (fst ` set defs - set (visited @ [nm])) < card (fst ` set defs - set visited)"
    by (intro psubset_card_mono) auto
  then show "((defs, b, visited @ [nm], result), (defs, nm, visited, result))
        \<in> measure (\<lambda>(defs, nm, visited, result). card (fst ` set defs - set visited))"
    by simp
qed

fun visit_all ::
  "ColorMap \<Rightarrow> string list \<Rightarrow> string list \<times> string list \<Rightarrow> error + string list \<times> string list" where
  "visit_all defs [] st = Inr st"
| "visit_all defs (nm # rest) st =
     (case visit defs nm st of
        Inl e \<Rightarrow> Inl e
      | Inr st' \<Rightarrow> visit_all defs rest st')"

definition topoSort :: "ColorMap \<Rightarrow> error + string list" where
  "topoSort defs =
    (case visit_all defs (map fst defs) ([], []) of
       Inl e \<Rightarrow> Inl e
     | Inr (visited, result) \<Rightarrow> Inr result)"

section \<open>Global configuration\<close>

text \<open>
  \<^verbatim>\<open>globalConfig\<close> is module state that the resolver only reads; it is a parameter.
  Of its fields the resolution engine reads \<^verbatim>\<open>darkLightness\<close> and
  \<^verbatim>\<open>darkDesaturation\<close>.
\<close>

record GlazeConfigResolved =
  darkLightness :: "real \<times> real"
  darkDesaturation :: real

definition defaultConfig :: GlazeConfigResolved where
  "defaultConfig = \<lparr>darkLightness = (10, 90), darkDesaturation = 1 / 10\<rparr>"

definition mapLightnessDark :: "GlazeConfigResolved \<Rightarrow> real \<Rightarrow> AdaptationMode \<Rightarrow> real" where
  "mapLightnessDark globalConfig l m =
    (if m = Static then l
     else (let (lo, hi) = darkLightness globalConfig
           in if m = Fixed then (l * (hi - lo)) / 100 + lo
              else ((100 - l) * (hi - lo)) / 100 + lo))"

definition mapSaturationDark :: "GlazeConfigResolved \<Rightarrow> real \<Rightarrow> AdaptationMode \<Rightarrow> real" where
  "mapSaturationDark globalConfig s m =
    (if m = Static then s else s * (1 - darkDesaturation globalConfig))"

section \<open>Colour resolution engine\<close>

definition clamp :: "real \<Rightarrow> real \<Rightarrow> real \<Rightarrow> real" where
  "clamp v mn mx = max mn (min mx v)"

text \<open>The result \<^verbatim>\<open>{ value, relative }\<close> is the pair \<open>(value, relative)\<close>.\<close>

fun parseRelativeOrAbsolute :: "NumOrRel \<Rightarrow> real \<times> bool" where
  "parseRelativeOrAbsolute (Absolute v) = (v, False)"
| "parseRelativeOrAbsolute (Relative v) = (v, True)"

definition resolveEffectiveHue :: "real \<Rightarrow> NumOrRel option \<Rightarrow> real" where
  "resolveEffectiveHue seedHue defHue =
    (case defHue of
       None \<Rightarrow> seedHue
     | Some dh \<Rightarrow>
         (let (v, relative) = parseRelativeOrAbsolute dh
          in if relative then js_rem (js_rem (seedHue + v) 360 + 360) 360
             else js_rem (js_rem v 360 + 360) 360))"

record ResolveContext =
  ctx_hue :: real
  ctx_saturation :: real
  ctx_defs :: ColorMap
  resolved :: "(string \<times> ResolvedColor) list"

text \<open>
  The results \<^verbatim>\<open>{ lightL, satFactor }\<close> and \<^verbatim>\<open>{ l, satFactor }\<close> are pairs.
  \<^verbatim>\<open>def.lightness!\<close> of a definition without lightness makes \<^verbatim>\<open>parseFloat\<close> return
  NaN, for which the model has no number.
\<close>

definition resolveRootColor ::
  "string \<Rightarrow> ColorDef \<Rightarrow> ResolveContext \<Rightarrow> bool \<Rightarrow> error + real \<times> real" where
  "resolveRootColor nm d ctx isHighContrast =
    (case lightness d of
       None \<Rightarrow> Inl (NotANumber nm)
     | Some rawL \<Rightarrow>
         (let rawValue = (if isHighContrast then pairHC rawL else pairNormal rawL);
              (v, relative) = parseRelativeOrAbsolute rawValue;
              lightL = clamp v 0 100;
              satFactor = clamp (case saturation d of None \<Rightarrow> 1 | Some x \<Rightarrow> x) 0 1
          in Inr (lightL, satFactor)))"

text \<open>
  The chain \<^verbatim>\<open>if (isDark && isHighContrast) ... else if (isDark) ... else if
  (isHighContrast) ... else ...\<close> that selects the variant of the base, which
  \<^verbatim>\<open>resolveDependentColor\<close> writes out twice.
\<close>

definition baseVariant :: "bool \<Rightarrow> bool \<Rightarrow> ResolvedColor \<Rightarrow> ResolvedColorVariant" where
  "baseVariant isDark isHighContrast baseResolved =
    (if isDark \<and> isHighContrast then darkContrast baseResolved
     else if isDark then dark baseResolved
     else if isHighContrast then lightContrast baseResolved
     else light baseResolved)"

definition resolveDependentColor ::
  "ColorMath \<Rightarrow> GlazeConfigResolved \<Rightarrow> string \<Rightarrow> ColorDef \<Rightarrow> ResolveContext \<Rightarrow> bool \<Rightarrow> bool \<Rightarrow>
   real \<Rightarrow> LumCache \<Rightarrow> (error + real \<times> real) \<times> LumCache" where
  "resolveDependentColor M globalConfig nm d ctx isHighContrast isDark effectiveHue c =
    (case base d of
       None \<Rightarrow> (Inl (BaseNotResolved ''undefined'' nm), c)
     | Some baseName \<Rightarrow>
        (case map_of (resolved ctx) baseName of
           None \<Rightarrow> (Inl (BaseNotResolved baseName nm), c)
         | Some baseResolved \<Rightarrow>
            (let m = (case mode d of None \<Rightarrow> Auto | Some x \<Rightarrow> x);
                 satFactor = clamp (case saturation d of None \<Rightarrow> 1 | Some x \<Rightarrow> x) 0 1;
                 baseL = v_l (baseVariant isDark isHighContrast baseResolved) * 100;
                 preferredL =
                   (case lightness d of
                      None \<Rightarrow> baseL
                    | Some rawLightness \<Rightarrow>
                        (let rawValue = (if isHighContrast then pairHC rawLightness
                                         else pairNormal rawLightness);
                             (v, relative) = parseRelativeOrAbsolute rawValue
                         in if relative
                            then (let delta = (if isDark \<and> m = Auto then - v else v)
                                  in clamp (baseL + delta) 0 100)
                            else if isDark then mapLightnessDark globalConfig v m
                            else clamp v 0 100))
             in case contrast d of
                  Some rawContrast \<Rightarrow>
                    (let minCr = (if isHighContrast then pairHC rawContrast
                                  else pairNormal rawContrast);
                         effectiveSat =
                           (if isDark
                            then mapSaturationDark globalConfig
                                   ((satFactor * ctx_saturation ctx) / 100) m
                            else (satFactor * ctx_saturation ctx) / 100);
                         bv = baseVariant isDark isHighContrast baseResolved;
                         baseLinearRgb = okhslToLinearSrgb M (v_h bv) (v_s bv) (v_l bv);
                         (result, c') =
                           findLightnessForContrast M
                             \<lparr>o_hue = effectiveHue, o_saturation = effectiveSat,
                              o_preferredLightness = preferredL / 100,
                              o_baseLinearRgb = baseLinearRgb, o_contrast = minCr,
                              o_lightnessRange = None, o_epsilon = None,
                              o_maxIterations = None\<rparr> c
                     in (Inr (res_lightness result * 100, satFactor), c'))
                | None \<Rightarrow> (Inr (clamp preferredL 0 100, satFactor), c))))"

definition resolveColorForScheme ::
  "ColorMath \<Rightarrow> GlazeConfigResolved \<Rightarrow> string \<Rightarrow> ColorDef \<Rightarrow> ResolveContext \<Rightarrow> bool \<Rightarrow> bool \<Rightarrow>
   LumCache \<Rightarrow> (error + ResolvedColorVariant) \<times> LumCache" where
  "resolveColorForScheme M globalConfig nm d ctx isDark isHighContrast c =
    (let m = (case mode d of None \<Rightarrow> Auto | Some x \<Rightarrow> x);
         isRoot = (isAbsoluteLightness (lightness d) \<and> \<not> truthy (base d));
         effectiveHue = resolveEffectiveHue (ctx_hue ctx) (hue d);
         (r, c') =
           (if isRoot then (resolveRootColor nm d ctx isHighContrast, c)
            else resolveDependentColor M globalConfig nm d ctx isHighContrast isDark
                   effectiveHue c)
     in case r of
          Inl e \<Rightarrow> (Inl e, c')
        | Inr (lightL, satFactor) \<Rightarrow>
            (let (finalL, finalSat) =
                   (if isDark \<and> isRoot
                    then (mapLightnessDark globalConfig lightL m,
                          mapSaturationDark globalConfig
                            ((satFactor * ctx_saturation ctx) / 100) m)
                    else if isDark \<and> \<not> isRoot
                    then (lightL,
                          mapSaturationDark globalConfig
                            ((satFactor * ctx_saturation ctx) / 100) m)
                    else (lightL, (satFactor * ctx_saturation ctx) / 100))
             in (Inr \<lparr>v_h = effectiveHue, v_s = clamp finalSat 0 1,
                       v_l = clamp (finalL / 100) 0 1\<rparr>, c')))"

text \<open>
  \<^verbatim>\<open>map.get(name)!\<close>: the source asserts that the entry is there. A lookup that finds
  none is an error of the model (the JavaScript would carry \<^verbatim>\<open>undefined\<close> on).
\<close>

definition get_bang :: "(string \<times> 'v) list \<Rightarrow> string \<Rightarrow> error + 'v" where
  "get_bang m nm = (case map_of m nm of None \<Rightarrow> Inl (TypeError nm) | Some v \<Rightarrow> Inr v)"

text \<open>
  The four evaluation loops of \<^verbatim>\<open>resolveAllColors\<close> have one shape: resolve the variant
  of each name in order, store it in the variant map of the pass, and store an entry in
  \<^verbatim>\<open>ctx.resolved\<close>. The entry stored is the argument \<open>entry\<close>.
\<close>

fun evalPass ::
  "ColorMath \<Rightarrow> GlazeConfigResolved \<Rightarrow> bool \<Rightarrow> bool \<Rightarrow>
   (string \<Rightarrow> ColorDef \<Rightarrow> ResolvedColorVariant \<Rightarrow> (string \<times> ResolvedColor) list
      \<Rightarrow> error + ResolvedColor) \<Rightarrow>
   string list \<Rightarrow> ResolveContext \<Rightarrow> (string \<times> ResolvedColorVariant) list \<Rightarrow> LumCache \<Rightarrow>
   (error + ResolveContext \<times> (string \<times> ResolvedColorVariant) list) \<times> LumCache" where
  "evalPass M globalConfig isDark isHighContrast entry [] ctx vmap c = (Inr (ctx, vmap), c)"
| "evalPass M globalConfig isDark isHighContrast entry (nm # rest) ctx vmap c =
    (case map_of (ctx_defs ctx) nm of
       None \<Rightarrow> (Inl (TypeError nm), c)
     | Some d \<Rightarrow>
        (case resolveColorForScheme M globalConfig nm d ctx isDark isHighContrast c of
           (Inl e, c') \<Rightarrow> (Inl e, c')
         | (Inr variant, c') \<Rightarrow>
             (case entry nm d variant (resolved ctx) of
                Inl e \<Rightarrow> (Inl e, c')
              | Inr rc \<Rightarrow>
                  evalPass M globalConfig isDark isHighContrast entry rest
                    (ctx\<lparr>resolved := AList.update nm rc (resolved ctx)\<rparr>)
                    (AList.update nm variant vmap) c')))"

definition pass1_entry ::
  "string \<Rightarrow> ColorDef \<Rightarrow> ResolvedColorVariant \<Rightarrow> (string \<times> ResolvedColor) list
   \<Rightarrow> error + ResolvedColor" where
  "pass1_entry nm d variant res =
    Inr \<lparr>name = nm, light = variant, dark = variant, lightContrast = variant,
         darkContrast = variant,
         rc_mode = (case mode d of None \<Rightarrow> Auto | Some x \<Rightarrow> x)\<rparr>"

definition pass2_entry ::
  "string \<Rightarrow> ColorDef \<Rightarrow> ResolvedColorVariant \<Rightarrow> (string \<times> ResolvedColor) list
   \<Rightarrow> error + ResolvedColor" where
  "pass2_entry nm d variant res =
    (case get_bang res nm of
       Inl e \<Rightarrow> Inl e
     | Inr old \<Rightarrow> Inr (old\<lparr>lightContrast := variant\<rparr>))"

definition pass3_entry ::
  "string \<Rightarrow> ColorDef \<Rightarrow> ResolvedColorVariant \<Rightarrow> (string \<times> ResolvedColor) list
   \<Rightarrow> error + ResolvedColor" where
  "pass3_entry nm d variant res =
    (case get_bang res nm of
       Inl e \<Rightarrow> Inl e
     | Inr old \<Rightarrow> Inr (old\<lparr>dark := variant\<rparr>))"

definition pass4_entry ::
  "string \<Rightarrow> ColorDef \<Rightarrow> ResolvedColorVariant \<Rightarrow> (string \<times> ResolvedColor) list
   \<Rightarrow> error + ResolvedColor" where
  "pass4_entry nm d variant res =
    (case get_bang res nm of
       Inl e \<Rightarrow> Inl e
     | Inr old \<Rightarrow> Inr (old\<lparr>darkContrast := variant\<rparr>))"

text \<open>
  The loops that only write a map (before passes 2, 3 and 4, and the final one that builds
  the result): for each name in order, \<^verbatim>\<open>map.set(name, entry)\<close>.
\<close>

fun setPass ::
  "(string \<Rightarrow> (string \<times> ResolvedColor) list \<Rightarrow> error + ResolvedColor) \<Rightarrow>
   string list \<Rightarrow> (string \<times> ResolvedColor) list \<Rightarrow> error + (string \<times> ResolvedColor) list" where
  "setPass entry [] res = Inr res"
| "setPass entry (nm # rest) res =
    (case entry nm res of
       Inl e \<Rightarrow> Inl e
     | Inr rc \<Rightarrow> setPass entry rest (AList.update nm rc res))"

definition prep2_entry ::
  "(string \<times> ResolvedColorVariant) list \<Rightarrow> string \<Rightarrow> (string \<times> ResolvedColor) list
   \<Rightarrow> error + ResolvedColor" where
  "prep2_entry lightMap nm res =
    (case get_bang res nm of
       Inl e \<Rightarrow> Inl e
     | Inr old \<Rightarrow>
        (case get_bang lightMap nm of
           Inl e \<Rightarrow> Inl e
         | Inr lv \<Rightarrow> Inr (old\<lparr>lightContrast := lv\<rparr>)))"

definition prep3_entry ::
  "ColorMap \<Rightarrow> (string \<times> ResolvedColorVariant) list \<Rightarrow> (string \<times> ResolvedColorVariant) list \<Rightarrow>
   string \<Rightarrow> (string \<times> ResolvedColor) list \<Rightarrow> error + ResolvedColor" where
  "prep3_entry defs lightMap lightHCMap nm res =
    (case get_bang lightMap nm of
       Inl e \<Rightarrow> Inl e
     | Inr lv \<Rightarrow>
        (case get_bang lightHCMap nm of
           Inl e \<Rightarrow> Inl e
         | Inr lhc \<Rightarrow>
            (case map_of defs nm of
               None \<Rightarrow> Inl (TypeError nm)
             | Some d \<Rightarrow>
                 Inr \<lparr>name = nm, light = lv, dark = lv, lightContrast = lhc,
                      darkContrast = lhc,
                      rc_mode = (case mode d of None \<Rightarrow> Auto | Some x \<Rightarrow> x)\<rparr>)))"

definition prep4_entry ::
  "(string \<times> ResolvedColorVariant) list \<Rightarrow> string \<Rightarrow> (string \<times> ResolvedColor) list
   \<Rightarrow> error + ResolvedColor" where
  "prep4_entry darkMap nm res =
    (case get_bang res nm of
       Inl e \<Rightarrow> Inl e
     | Inr old \<Rightarrow>
        (case get_bang darkMap nm of
           Inl e \<Rightarrow> Inl e
         | Inr dv \<Rightarrow> Inr (old\<lparr>darkContrast := dv\<rparr>)))"

definition final_entry ::
  "ColorMap \<Rightarrow> (string \<times> ResolvedColorVariant) list \<Rightarrow> (string \<times> ResolvedColorVariant) list \<Rightarrow>
   (string \<times> ResolvedColorVariant) list \<Rightarrow> (string \<times> ResolvedColorVariant) list \<Rightarrow>
   string \<Rightarrow> (string \<times> ResolvedColor) list \<Rightarrow> error + ResolvedColor" where
  "final_entry defs lightMap darkMap lightHCMap darkHCMap nm res =
    (case get_bang lightMap nm of
       Inl e \<Rightarrow> Inl e
     | Inr lv \<Rightarrow>
        (case get_bang darkMap nm of
           Inl e \<Rightarrow> Inl e
         | Inr dv \<Rightarrow>
            (case get_bang lightHCMap nm of
               Inl e \<Rightarrow> Inl e
             | Inr lhc \<Rightarrow>
                (case get_bang darkHCMap nm of
                   Inl e \<Rightarrow> Inl e
                 | Inr dhc \<Rightarrow>
                    (case map_of defs nm of
                       None \<Rightarrow> Inl (TypeError nm)
                     | Some d \<Rightarrow>
                         Inr \<lparr>name = nm, light = lv, dark = dv, lightContrast = lhc,
                              darkContrast = dhc,
                              rc_mode = (case mode d of None \<Rightarrow> Auto | Some x \<Rightarrow> x)\<rparr>)))))"

text \<open>
  \<^verbatim>\<open>resolveAllColors\<close>. An exception leaves the cache as it is at the throw, so the cache
  is returned beside the error too.
\<close>

definition resolveAllColors ::
  "ColorMath \<Rightarrow> GlazeConfigResolved \<Rightarrow> real \<Rightarrow> real \<Rightarrow> ColorMap \<Rightarrow> LumCache \<Rightarrow>
   (error + (string \<times> ResolvedColor) list) \<times> LumCache" where
  "resolveAllColors M globalConfig seedHue seedSaturation defs c =
    (case validateColorDefs defs of
       Inl e \<Rightarrow> (Inl e, c)
     | Inr u \<Rightarrow>
    (case topoSort defs of
       Inl e \<Rightarrow> (Inl e, c)
     | Inr order \<Rightarrow>
    (let ctx = \<lparr>ctx_hue = seedHue, ctx_saturation = seedSaturation, ctx_defs = defs,
                resolved = []\<rparr>
     in case evalPass M globalConfig False False pass1_entry order ctx [] c of
       (Inl e, c1) \<Rightarrow> (Inl e, c1)
     | (Inr (ctx1, lightMap), c1) \<Rightarrow>
    (case setPass (prep2_entry lightMap) order (resolved ctx1) of
       Inl e \<Rightarrow> (Inl e, c1)
     | Inr res2 \<Rightarrow>
    (case evalPass M globalConfig False True pass2_entry order (ctx1\<lparr>resolved := res2\<rparr>) [] c1 of
       (Inl e, c2) \<Rightarrow> (Inl e, c2)
     | (Inr (ctx2, lightHCMap), c2) \<Rightarrow>
    (case setPass (prep3_entry defs lightMap lightHCMap) order (resolved ctx2) of
       Inl e \<Rightarrow> (Inl e, c2)
     | Inr res3 \<Rightarrow>
    (case evalPass M globalConfig True False pass3_entry order (ctx2\<lparr>resolved := res3\<rparr>) [] c2 of
       (Inl e, c3) \<Rightarrow> (Inl e, c3)
     | (Inr (ctx3, darkMap), c3) \<Rightarrow>
    (case setPass (prep4_entry darkMap) order (resolved ctx3) of
       Inl e \<Rightarrow> (Inl e, c3)
     | Inr res4 \<Rightarrow>
    (case evalPass M globalConfig True True pass4_entry order (ctx3\<lparr>resolved := res4\<rparr>) [] c3 of
       (Inl e, c4) \<Rightarrow> (Inl e, c4)
     | (Inr (ctx4, darkHCMap), c4) \<Rightarrow>
    (case setPass (final_entry defs lightMap darkMap lightHCMap darkHCMap) order [] of
       Inl e \<Rightarrow> (Inl e, c4)
     | Inr result \<Rightarrow> (Inr result, c4)))))))))))"

section \<open>Theme\<close>

text \<open>
  The closure of \<^verbatim>\<open>createTheme\<close> holds \<^verbatim>\<open>hue\<close>, \<^verbatim>\<open>saturation\<close> and the variable
  \<^verbatim>\<open>colorDefs\<close>, a reference to an object. Objects live in a store; an object literal
  allocates a new one. The methods never write a field of a \<^verbatim>\<open>ColorDef\<close>, so the
  definitions are values.
\<close>

text \<open>
  The object spread \<^verbatim>\<open>{ ...a, ...b }\<close>: the entries of \<open>a\<close>, overwritten in place or
  followed by those of \<open>b\<close>.
\<close>

definition spread :: "ColorMap \<Rightarrow> ColorMap \<Rightarrow> ColorMap" where
  "spread a b = foldl (\<lambda>acc (k, v). AList.update k v acc) a b"

record Heap =
  objects :: "nat \<Rightarrow> ColorMap"
  fresh :: nat

definition alloc :: "ColorMap \<Rightarrow> Heap \<Rightarrow> nat \<times> Heap" where
  "alloc obj hp = (fresh hp, \<lparr>objects = (objects hp)(fresh hp := obj), fresh = Suc (fresh hp)\<rparr>)"

record Theme =
  t_hue :: real
  t_saturation :: real
  colorDefs :: nat

record GlazeThemeExport =
  e_hue :: real
  e_saturation :: real
  e_colors :: nat

definition createTheme :: "real \<Rightarrow> real \<Rightarrow> ColorMap option \<Rightarrow> Heap \<Rightarrow> Theme \<times> Heap" where
  "createTheme hue0 saturation0 initialColors hp =
    (let (r, hp') = alloc (case initialColors of Some ic \<Rightarrow> spread [] ic | None \<Rightarrow> []) hp
     in (\<lparr>t_hue = hue0, t_saturation = saturation0, colorDefs = r\<rparr>, hp'))"

definition theme_colors :: "ColorMap \<Rightarrow> Theme \<Rightarrow> Heap \<Rightarrow> Theme \<times> Heap" where
  "theme_colors defs t hp =
    (let (r, hp') = alloc (spread (spread [] (objects hp (colorDefs t))) defs) hp
     in (t\<lparr>colorDefs := r\<rparr>, hp'))"

definition theme_color :: "string \<Rightarrow> ColorDef option \<Rightarrow> Theme \<Rightarrow> Heap \<Rightarrow> Theme \<times> Heap" where
  "theme_color nm d t hp =
    (case d of
       None \<Rightarrow> (t, hp)
     | Some d' \<Rightarrow>
         (t, hp\<lparr>objects := (objects hp)(colorDefs t := AList.update nm d' (objects hp (colorDefs t)))\<rparr>))"

fun theme_remove :: "string list \<Rightarrow> Theme \<Rightarrow> Heap \<Rightarrow> Theme \<times> Heap" where
  "theme_remove [] t hp = (t, hp)"
| "theme_remove (nm # rest) t hp =
    theme_remove rest t
      (hp\<lparr>objects := (objects hp)(colorDefs t := AList.delete nm (objects hp (colorDefs t)))\<rparr>)"

definition theme_reset :: "Theme \<Rightarrow> Heap \<Rightarrow> Theme \<times> Heap" where
  "theme_reset t hp = (let (r, hp') = alloc [] hp in (t\<lparr>colorDefs := r\<rparr>, hp'))"

definition theme_export :: "Theme \<Rightarrow> Heap \<Rightarrow> GlazeThemeExport \<times> Heap" where
  "theme_export t hp =
    (let (r, hp') = alloc (spread [] (objects hp (colorDefs t))) hp
     in (\<lparr>e_hue = t_hue t, e_saturation = t_saturation t, e_colors = r\<rparr>, hp'))"

datatype ThemeCall =
    Colors ColorMap
  | Color string "ColorDef option"
  | Remove "string list"
  | Reset

fun call :: "ThemeCall \<Rightarrow> Theme \<times> Heap \<Rightarrow> Theme \<times> Heap" where
  "call (Colors defs) (t, hp) = theme_colors defs t hp"
| "call (Color nm d) (t, hp) = theme_color nm d t hp"
| "call (Remove names) (t, hp) = theme_remove names t hp"
| "call Reset (t, hp) = theme_reset t hp"

fun calls :: "ThemeCall list \<Rightarrow> Theme \<times> Heap \<Rightarrow> Theme \<times> Heap" where
  "calls [] st = st"
| "calls (x # xs) st = calls xs (call x st)"

definition export_view :: "GlazeThemeExport \<Rightarrow> Heap \<Rightarrow> real \<times> real \<times> ColorMap" where
  "export_view ex hp = (e_hue ex, e_saturation ex, objects hp (e_colors ex))"

definition export_then ::
  "ThemeCall list \<Rightarrow> Theme \<times> Heap \<Rightarrow> (real \<times> real \<times> ColorMap) \<times> (real \<times> real \<times> ColorMap)" where
  "export_then later st =
    (let (ex, hp1) = theme_export (fst st) (snd st);
         st2 = calls later (fst st, hp1)
     in (export_view ex hp1, export_view ex (snd st2)))"

section \<open>Properties and sample inputs\<close>



text \<open>The definition \<^verbatim>\<open>{}\<close>, with no property set.\<close>

definition emptyDef :: ColorDef where
  "emptyDef = \<lparr>lightness = None, saturation = None, hue = None, base = None,
               contrast = None, mode = None\<rparr>"

text \<open>
  A colour math to run the functions on: a grey ramp whose linear channels are the
  lightness, with the WCAG weights of the channels. Under it the luminance of
  \<open>(h, s, l)\<close> is \<open>l\<close>, strictly increasing in \<open>l\<close>.
\<close>

definition sample_math :: ColorMath where
  "sample_math =
    \<lparr>okhslToLinearSrgb = (\<lambda>h s l. (l, l, l)),
     relativeLuminanceFromLinearRgb = (\<lambda>(r, g, b). 0.2126 * r + 0.7152 * g + 0.0722 * b)\<rparr>"


text \<open>
  \<^verbatim>\<open>{ text: { base: 'surface', lightness: 45, contrast: 'AAA' }, surface: { lightness: 97 } }\<close>:
  the dependent colour of the test "resolves dependent colors with absolute lightness",
  written before its base.
\<close>

definition text_before_surface :: ColorMap where
  "text_before_surface =
    [(''text'', emptyDef\<lparr>base := Some ''surface'', lightness := Some (Single (Absolute 45)),
                         contrast := Some (Single (Preset AAA))\<rparr>),
     (''surface'', emptyDef\<lparr>lightness := Some (Single (Absolute 97))\<rparr>)]"

text \<open>
  Base references as a graph: \<open>base_of\<close> is the \<^verbatim>\<open>base\<close> a colour names, \<open>followed_of\<close>
  the base edge that \<^verbatim>\<open>dfs\<close> and \<^verbatim>\<open>visit\<close> follow. \<open>walk nxt n a\<close> takes \<open>n\<close> steps
  from \<open>a\<close>; a cycle through \<open>a\<close> is a walk of \<open>n > 0\<close> steps from \<open>a\<close> back to \<open>a\<close>.
\<close>

definition base_of :: "ColorMap \<Rightarrow> string \<Rightarrow> string option" where
  "base_of defs nm = (case map_of defs nm of None \<Rightarrow> None | Some d \<Rightarrow> base d)"

definition followed_of :: "ColorMap \<Rightarrow> string \<Rightarrow> string option" where
  "followed_of defs nm = (case map_of defs nm of None \<Rightarrow> None | Some d \<Rightarrow> followedBase d)"

fun walk :: "(string \<Rightarrow> string option) \<Rightarrow> nat \<Rightarrow> string \<Rightarrow> string option" where
  "walk nxt 0 a = Some a"
| "walk nxt (Suc n) a = (case nxt a of None \<Rightarrow> None | Some b \<Rightarrow> walk nxt n b)"

text \<open>A walk that never ends, and a map in which every followed base is a key.\<close>

definition diverges :: "(string \<Rightarrow> string option) \<Rightarrow> string \<Rightarrow> bool" where
  "diverges nxt a = (\<forall>k. walk nxt k a \<noteq> None)"

definition bases_exist :: "ColorMap \<Rightarrow> bool" where
  "bases_exist defs = 
    (\<forall>(nm, d) \<in> set defs. \<forall>b. followedBase d = Some b \<longrightarrow> b \<in> fst ` set defs)"

text \<open>
  \<^verbatim>\<open>{ a: { lightness: 50, base: 'b' }, b: { base: 'a' } }\<close>,
  \<^verbatim>\<open>{ a: { base: 'b' }, b: { base: 'a' }, c: {} }\<close> and
  \<^verbatim>\<open>{ a: { base: 'b' }, b: { base: 'a' } }\<close>.
\<close>

definition abs_cycle :: ColorMap where
  "abs_cycle =
    [(''a'', emptyDef\<lparr>lightness := Some (Single (Absolute 50)), base := Some ''b''\<rparr>),
     (''b'', emptyDef\<lparr>base := Some ''a''\<rparr>)]"

definition cycle_and_orphan :: ColorMap where
  "cycle_and_orphan =
    [(''a'', emptyDef\<lparr>base := Some ''b''\<rparr>),
     (''b'', emptyDef\<lparr>base := Some ''a''\<rparr>),
     (''c'', emptyDef)]"

definition two_cycle :: ColorMap where
  "two_cycle =
    [(''a'', emptyDef\<lparr>base := Some ''b''\<rparr>),
     (''b'', emptyDef\<lparr>base := Some ''a''\<rparr>)]"

section \<open>The solver without the cache\<close>

text \<open>
  The luminance of \<open>(h, s, l)\<close> under a colour math, the rounding to four decimals that
  \<^verbatim>\<open>cachedLuminance\<close> applies to the lightness, and the contrast against \<open>yBase\<close> as the
  solver measures it: at the rounded lightness.
\<close>

definition lum :: "ColorMath \<Rightarrow> real \<Rightarrow> real \<Rightarrow> real \<Rightarrow> real" where
  "lum M h s l = relativeLuminanceFromLinearRgb M (okhslToLinearSrgb M h s l)"

definition round4 :: "real \<Rightarrow> real" where
  "round4 l = Math_round (l * 10000) / 10000"

definition measured :: "ColorMath \<Rightarrow> real \<Rightarrow> real \<Rightarrow> real \<Rightarrow> real \<Rightarrow> real" where
  "measured M h s yBase l = contrastRatioFromLuminance (lum M h s (round4 l)) yBase"

text \<open>
  The WCAG contrast ratio of the lightness itself, with no rounding.
\<close>

definition wcag_contrast :: "ColorMath \<Rightarrow> real \<Rightarrow> real \<Rightarrow> real \<Rightarrow> real \<Rightarrow> real" where
  "wcag_contrast M h s yBase l = contrastRatioFromLuminance (lum M h s l) yBase"

text \<open>
  A cache whose every entry holds the luminance of its key. The empty cache is one, and
  \<^verbatim>\<open>cachedLuminance\<close>, the only code that writes the cache, keeps it one.
\<close>

definition cache_ok :: "ColorMath \<Rightarrow> LumCache \<Rightarrow> bool" where
  "cache_ok M c = (\<forall>((h, s, l), y) \<in> set (luminanceCache c). y = lum M h s l)"

text \<open>
  The loops and functions of the solver as functions of the measured contrast \<open>f\<close> alone.
  They are the source's functions with \<^verbatim>\<open>cachedLuminance\<close> and
  \<^verbatim>\<open>contrastRatioFromLuminance\<close> replaced by \<open>f\<close>; the lemmas
  \<open>searchBranch_pure\<close>, \<open>coarseScan_pure\<close> and \<open>findLightnessForContrast_pure\<close> below
  show that the functions with the cache compute the same results.
\<close>

fun bisect_pure ::
  "nat \<Rightarrow> (real \<Rightarrow> real) \<Rightarrow> real \<Rightarrow> real \<Rightarrow> real \<Rightarrow> real \<Rightarrow> real \<Rightarrow> real \<times> real" where
  "bisect_pure 0 f target eps pref low high = (low, high)"
| "bisect_pure (Suc n) f target eps pref low high =
    (if high - low < eps then (low, high)
     else
       (let mid = (low + high) / 2
        in if f mid \<ge> target
           then (if mid < pref then bisect_pure n f target eps pref mid high
                 else bisect_pure n f target eps pref low mid)
           else (if mid < pref then bisect_pure n f target eps pref low mid
                 else bisect_pure n f target eps pref mid high)))"

fun samples_pure ::
  "(real \<Rightarrow> real) \<Rightarrow> real \<Rightarrow> real \<Rightarrow> real \<Rightarrow> nat list \<Rightarrow> (real \<times> real \<times> bool)
   \<Rightarrow> (real \<times> real \<times> bool)" where
  "samples_pure f lo step target [] best = best"
| "samples_pure f lo step target (i # is) (bestL, bestCr, bestMet) =
    (let l = lo + step * real i;
         cr = f l
     in if cr \<ge> target \<and> \<not> bestMet
        then samples_pure f lo step target is (l, cr, True)
        else if cr \<ge> target \<and> bestMet
        then samples_pure f lo step target is (l, cr, bestMet)
        else if \<not> bestMet \<and> cr > bestCr
        then samples_pure f lo step target is (l, cr, bestMet)
        else samples_pure f lo step target is (bestL, bestCr, bestMet))"

fun refine_pure ::
  "nat \<Rightarrow> (real \<Rightarrow> real) \<Rightarrow> real \<Rightarrow> real \<Rightarrow> (real \<times> real \<times> real \<times> real)
   \<Rightarrow> (real \<times> real \<times> real \<times> real)" where
  "refine_pure 0 f target eps st = st"
| "refine_pure (Suc n) f target eps (rLo, rHi, bestL, bestCr) =
    (if rHi - rLo < eps then (rLo, rHi, bestL, bestCr)
     else
       (let mid = (rLo + rHi) / 2;
            cr = f mid
        in if cr \<ge> target
           then refine_pure n f target eps (rLo, mid, mid, cr)
           else refine_pure n f target eps (mid, rHi, bestL, bestCr)))"

definition coarseScan_p ::
  "(real \<Rightarrow> real) \<Rightarrow> real \<Rightarrow> real \<Rightarrow> real \<Rightarrow> real \<Rightarrow> nat \<Rightarrow> BranchResult" where
  "coarseScan_p f lo hi target eps maxIter =
    (let step = (hi - lo) / real STEPS;
         (bestL, bestCr, bestMet) =
            samples_pure f lo step target [0 ..< Suc STEPS] (lo, 0, False)
     in if bestMet \<and> bestL > lo + step
        then (let (rLo, rHi, bestL', bestCr') =
                    refine_pure maxIter f target eps (bestL - step, bestL, bestL, bestCr)
              in \<lparr>res_lightness = bestL', res_contrast = bestCr', met = bestMet\<rparr>)
        else \<lparr>res_lightness = bestL, res_contrast = bestCr, met = bestMet\<rparr>)"

definition searchBranch_p ::
  "(real \<Rightarrow> real) \<Rightarrow> real \<Rightarrow> real \<Rightarrow> real \<Rightarrow> real \<Rightarrow> nat \<Rightarrow> real \<Rightarrow> BranchResult" where
  "searchBranch_p f lo hi target eps maxIter pref =
    (let crLo = f lo;
         crHi = f hi
     in if crLo < target \<and> crHi < target
        then (if crLo \<ge> crHi
              then \<lparr>res_lightness = lo, res_contrast = crLo, met = False\<rparr>
              else \<lparr>res_lightness = hi, res_contrast = crHi, met = False\<rparr>)
        else
          (let (low, high) = bisect_pure maxIter f target eps pref lo hi;
               crLow = f low;
               crHigh = f high;
               lowPasses = (crLow \<ge> target);
               highPasses = (crHigh \<ge> target)
           in if lowPasses \<and> highPasses
              then (if \<bar>low - pref\<bar> \<le> \<bar>high - pref\<bar>
                    then \<lparr>res_lightness = low, res_contrast = crLow, met = True\<rparr>
                    else \<lparr>res_lightness = high, res_contrast = crHigh, met = True\<rparr>)
              else if lowPasses
              then \<lparr>res_lightness = low, res_contrast = crLow, met = True\<rparr>
              else if highPasses
              then \<lparr>res_lightness = high, res_contrast = crHigh, met = True\<rparr>
              else coarseScan_p f lo hi target eps maxIter))"

definition find_p ::
  "(real \<Rightarrow> real) \<Rightarrow> real \<Rightarrow> real \<Rightarrow> real \<Rightarrow> real \<Rightarrow> real \<Rightarrow> nat
   \<Rightarrow> FindLightnessForContrastResult" where
  "find_p f target pref minL maxL eps maxIter =
    (if f pref \<ge> target
     then \<lparr>res_lightness = pref, res_contrast = f pref, met = True, branch = Preferred\<rparr>
     else
       (let darkerResult =
              (if pref > minL then Some (searchBranch_p f minL pref target eps maxIter pref)
               else None);
            lighterResult =
              (if pref < maxL then Some (searchBranch_p f pref maxL target eps maxIter pref)
               else None);
            darkerPasses = (case darkerResult of Some r \<Rightarrow> met r | None \<Rightarrow> False);
            lighterPasses = (case lighterResult of Some r \<Rightarrow> met r | None \<Rightarrow> False)
        in case (darkerResult, lighterResult) of
             (Some d, Some l) \<Rightarrow>
               if darkerPasses \<and> lighterPasses
               then (if \<bar>res_lightness d - pref\<bar> \<le> \<bar>res_lightness l - pref\<bar>
                     then with_branch d Darker
                     else with_branch l Lighter)
               else if darkerPasses then with_branch d Darker
               else if lighterPasses then with_branch l Lighter
               else (if res_contrast l > res_contrast d
                     then with_branch l Lighter
                     else with_branch d Darker)
           | (Some d, None) \<Rightarrow> with_branch d Darker
           | (None, Some l) \<Rightarrow> with_branch l Lighter
           | (None, None) \<Rightarrow>
               \<lparr>res_lightness = pref, res_contrast = f pref, met = False,
                 branch = Preferred\<rparr>))"

text \<open>The options of a call after the defaults are filled in.\<close>

definition opt_range :: "FindLightnessForContrastOptions \<Rightarrow> real \<times> real" where
  "opt_range options = (case o_lightnessRange options of None \<Rightarrow> (0, 1) | Some r \<Rightarrow> r)"

definition opt_epsilon :: "FindLightnessForContrastOptions \<Rightarrow> real" where
  "opt_epsilon options = (case o_epsilon options of None \<Rightarrow> 1 / 10000 | Some e \<Rightarrow> e)"

definition opt_maxIterations :: "FindLightnessForContrastOptions \<Rightarrow> nat" where
  "opt_maxIterations options = (case o_maxIterations options of None \<Rightarrow> 14 | Some n \<Rightarrow> n)"

text \<open>The contrast a call measures, as a function of the lightness, and its target.\<close>

definition opt_measured :: "ColorMath \<Rightarrow> FindLightnessForContrastOptions \<Rightarrow> real \<Rightarrow> real" where
  "opt_measured M options =
    measured M (o_hue options) (o_saturation options)
      (relativeLuminanceFromLinearRgb M (o_baseLinearRgb options))"

definition opt_target :: "FindLightnessForContrastOptions \<Rightarrow> real" where
  "opt_target options = resolveMinContrast (o_contrast options)"


text \<open>
  The interval a call searches: from the lower end of the range, or the preferred lightness
  if that is lower, to the upper end of the range, or the preferred lightness if that is
  higher. It is the lightness range itself when the preferred lightness lies in it.
\<close>

definition search_lo :: "FindLightnessForContrastOptions \<Rightarrow> real" where
  "search_lo options = min (fst (opt_range options)) (o_preferredLightness options)"

definition search_hi :: "FindLightnessForContrastOptions \<Rightarrow> real" where
  "search_hi options = max (snd (opt_range options)) (o_preferredLightness options)"

text \<open>A lightness passes when its measured contrast reaches the resolved target.\<close>

definition passes :: "ColorMath \<Rightarrow> FindLightnessForContrastOptions \<Rightarrow> real \<Rightarrow> bool" where
  "passes M options l = (opt_measured M options l \<ge> opt_target options)"

text \<open>Options with no optional field set.\<close>

definition solver_options ::
  "real \<Rightarrow> real \<Rightarrow> real \<Rightarrow> rgb \<Rightarrow> MinContrast \<Rightarrow> FindLightnessForContrastOptions" where
  "solver_options h s pref baseRgb cr =
    \<lparr>o_hue = h, o_saturation = s, o_preferredLightness = pref, o_baseLinearRgb = baseRgb,
     o_contrast = cr, o_lightnessRange = None, o_epsilon = None, o_maxIterations = None\<rparr>"

text \<open>
  A colour math whose luminance is not monotone in the lightness: it is 1 at the
  lightness 1/4 and 0 elsewhere.
\<close>

definition bump_math :: ColorMath where
  "bump_math =
    \<lparr>okhslToLinearSrgb = (\<lambda>h s l. if l = 1 / 4 then (1, 1, 1) else (0, 0, 0)),
     relativeLuminanceFromLinearRgb = (\<lambda>(r, g, b). 0.2126 * r + 0.7152 * g + 0.0722 * b)\<rparr>"


text \<open>Calls of the solver on a black base (linear RGB 0, 0, 0), and on a grey one.\<close>

definition opts_pref_rounds_up :: FindLightnessForContrastOptions where
  "opts_pref_rounds_up = solver_options 0 0 (2499 / 25000) (0, 0, 0) (Num 3)"





definition opts_mid_30 :: FindLightnessForContrastOptions where
  "opts_mid_30 = solver_options 0 0 (1 / 2) (0, 0, 0) (Num 30)"

definition opts_grey_base :: FindLightnessForContrastOptions where
  "opts_grey_base =
    (solver_options 0 0 (1 / 2) (112 / 625, 112 / 625, 112 / 625) (Num 21))
      \<lparr>o_lightnessRange := Some (1 / 25000, 1)\<rparr>"

section \<open>Reachable caches\<close>

text \<open>
  \<^verbatim>\<open>{ surface: { lightness: 97 }, text: { base: 'surface', lightness: '-52', contrast: 'AAA' } }\<close>
\<close>

definition surface_text_aaa :: ColorMap where
  "surface_text_aaa =
    [(''surface'', emptyDef\<lparr>lightness := Some (Single (Absolute 97))\<rparr>),
     (''text'', emptyDef\<lparr>base := Some ''surface'', lightness := Some (Single (Relative (- 52))),
                         contrast := Some (Single (Preset AAA))\<rparr>)]"

text \<open>
  The caches that can exist when a call is made: the cache is private to the solver
  module, empty when the module is loaded, and written only by the calls of
  \<^verbatim>\<open>findLightnessForContrast\<close>, made directly or by \<^verbatim>\<open>resolve\<close>.
\<close>

inductive reachable_cache :: "ColorMath \<Rightarrow> LumCache \<Rightarrow> bool" for M :: ColorMath where
  initial: "reachable_cache M empty_cache"
| solver_call:
    "reachable_cache M c \<Longrightarrow> reachable_cache M (snd (findLightnessForContrast M options c))"
| resolve_call:
    "reachable_cache M c \<Longrightarrow>
     reachable_cache M (snd (resolveAllColors M globalConfig seedHue seedSaturation defs c))"

section \<open>Theorems\<close>

declare dfs.simps [simp del]

declare visit.simps [simp del]

text \<open>
  C6. With the default dark window [10, 90], the dark mapping of a lightness \<open>l\<close> is \<open>l\<close>
  itself in mode static, \<open>0.8 l + 10\<close> in mode fixed, and \<open>0.8 (100 - l) + 10\<close> (the
  inversion) in mode auto.
\<close>

theorem mapLightnessDark_default_window:
  "mapLightnessDark defaultConfig l Static = l \<and>
   mapLightnessDark defaultConfig l Fixed = 0.8 * l + 10 \<and>
   mapLightnessDark defaultConfig l Auto = 0.8 * (100 - l) + 10"
  by (simp add: mapLightnessDark_def defaultConfig_def)

subsection \<open>The exported theme\<close>

lemma theme_remove_frame:
  "theme_remove names t hp = (t', hp') \<Longrightarrow>
   t' = t \<and> fresh hp' = fresh hp \<and> (\<forall>r. r \<noteq> colorDefs t \<longrightarrow> objects hp' r = objects hp r)"
  by (induction names arbitrary: hp) auto

lemma call_frame:
  assumes "colorDefs (fst st) < fresh (snd st)" "r < fresh (snd st)" "r \<noteq> colorDefs (fst st)"
  shows "colorDefs (fst (call x st)) < fresh (snd (call x st)) \<and>
         r < fresh (snd (call x st)) \<and> r \<noteq> colorDefs (fst (call x st)) \<and>
         objects (snd (call x st)) r = objects (snd st) r"
proof (cases st)
  case (Pair t hp)
  show ?thesis
  proof (cases x)
    case (Colors defs)
    with Pair assms show ?thesis
      by (auto simp: theme_colors_def alloc_def)
  next
    case (Color nm d)
    with Pair assms show ?thesis
      by (auto simp: theme_color_def split: option.splits)
  next
    case (Remove names)
    obtain t' hp' where r: "theme_remove names t hp = (t', hp')" by fastforce
    from theme_remove_frame[OF r] Remove Pair assms r show ?thesis
      by auto
  next
    case Reset
    with Pair assms show ?thesis
      by (auto simp: theme_reset_def alloc_def)
  qed
qed

lemma calls_frame:
  "colorDefs (fst st) < fresh (snd st) \<Longrightarrow> r < fresh (snd st) \<Longrightarrow> r \<noteq> colorDefs (fst st) \<Longrightarrow>
   objects (snd (calls xs st)) r = objects (snd st) r"
proof (induction xs arbitrary: st)
  case Nil
  then show ?case by simp
next
  case (Cons x xs)
  from call_frame[OF Cons.prems, of x] Cons.IH[of "call x st"] show ?case
    by simp
qed

lemma call_wf:
  "colorDefs (fst st) < fresh (snd st) \<Longrightarrow> colorDefs (fst (call x st)) < fresh (snd (call x st))"
proof (cases st)
  case (Pair t hp)
  assume a: "colorDefs (fst st) < fresh (snd st)"
  show ?thesis
  proof (cases x)
    case (Remove names)
    obtain t' hp' where r: "theme_remove names t hp = (t', hp')" by fastforce
    from theme_remove_frame[OF r] Remove Pair a r show ?thesis by auto
  qed (use Pair a in \<open>auto simp: theme_colors_def theme_color_def theme_reset_def alloc_def
         split: option.splits\<close>)
qed

lemma calls_wf:
  "colorDefs (fst st) < fresh (snd st) \<Longrightarrow>
   colorDefs (fst (calls xs st)) < fresh (snd (calls xs st))"
  by (induction xs arbitrary: st) (auto simp: call_wf simp del: call.simps)

lemma createTheme_wf:
  "colorDefs (fst (createTheme h0 s0 init hp0)) < fresh (snd (createTheme h0 s0 init hp0))"
  by (simp add: createTheme_def alloc_def)

lemma export_then_frame:
  assumes "colorDefs (fst st) < fresh (snd st)"
  shows "snd (export_then later st) = fst (export_then later st)"
proof -
  obtain ex hp1 where e: "theme_export (fst st) (snd st) = (ex, hp1)" by fastforce
  from e assms have 1: "colorDefs (fst (fst st, hp1)) < fresh (snd (fst st, hp1))"
    and 2: "e_colors ex < fresh (snd (fst st, hp1))"
    and 3: "e_colors ex \<noteq> colorDefs (fst (fst st, hp1))"
    by (auto simp: theme_export_def alloc_def)
  from calls_frame[OF 1 2 3, of later] e show ?thesis
    by (simp add: export_then_def export_view_def)
qed

text \<open>
  C10. The object returned by \<^verbatim>\<open>export()\<close> is a snapshot: whatever calls of
  \<^verbatim>\<open>colors\<close>, \<^verbatim>\<open>color\<close>, \<^verbatim>\<open>remove\<close> and \<^verbatim>\<open>reset\<close> were made on a theme before the
  export, the hue, the saturation and the colour entries read from the exported object
  after any later such calls are those read right after the export.
\<close>

theorem export_is_snapshot:
  "snd (export_then later (calls before (createTheme h0 s0 init hp0))) =
   fst (export_then later (calls before (createTheme h0 s0 init hp0)))"
  by (rule export_then_frame) (rule calls_wf, rule createTheme_wf)



subsection \<open>Ranges of the resolved variants\<close>







lemma set_AList_update:
  "(k', v') \<in> set (AList.update k v al) \<Longrightarrow> (k', v') = (k, v) \<or> (k', v') \<in> set al"
  by (induction al) (auto split: if_splits)








subsection \<open>A dependent colour declared before its base\<close>

text \<open>
  C4 (the code falls short of the claim). The map \<^const>\<open>text_before_surface\<close> passes
  validation, the order computed for it puts \<open>text\<close> before its base \<open>surface\<close>, and
  \<^verbatim>\<open>resolve\<close> throws "base not yet resolved" in the first pass, for every seed,
  configuration and cache: it returns no map.
\<close>

theorem resolve_throws_for_base_declared_later:
  "validateColorDefs text_before_surface = Inr () \<and>
   topoSort text_before_surface = Inr [''text'', ''surface''] \<and>
   resolveAllColors M globalConfig seedHue seedSaturation text_before_surface c =
     (Inl (BaseNotResolved ''surface'' ''text''), c)"
proof -
  have v: "validateColorDefs text_before_surface = Inr ()"
    by (simp add: validateColorDefs_def text_before_surface_def emptyDef_def
        validate_entry_def dfs.simps followedBase_def)
  have t: "topoSort text_before_surface = Inr [''text'', ''surface'']"
    by (simp add: topoSort_def text_before_surface_def emptyDef_def visit.simps
        followedBase_def)
  have "resolveAllColors M globalConfig seedHue seedSaturation text_before_surface c =
     (Inl (BaseNotResolved ''surface'' ''text''), c)"
    unfolding resolveAllColors_def v t
    by (simp add: text_before_surface_def emptyDef_def resolveColorForScheme_def
        resolveDependentColor_def)
  with v t show ?thesis by simp
qed

subsection \<open>The entries of a returned map\<close>

lemma visit_seen:
  "nm \<in> set visited \<Longrightarrow> visit defs nm (visited, result) = Inr (visited, result)"
  by (subst visit.simps) simp

lemma visit_undefined:
  "nm \<notin> set visited \<Longrightarrow> map_of defs nm = None \<Longrightarrow>
   visit defs nm (visited, result) = Inl (TypeError nm)"
  by (subst visit.simps) simp

lemma visit_leaf:
  "nm \<notin> set visited \<Longrightarrow> map_of defs nm = Some d \<Longrightarrow> followedBase d = None \<Longrightarrow>
   visit defs nm (visited, result) = Inr (visited @ [nm], result @ [nm])"
  by (subst visit.simps) simp

lemma visit_follow:
  "nm \<notin> set visited \<Longrightarrow> map_of defs nm = Some d \<Longrightarrow> followedBase d = Some b \<Longrightarrow>
   visit defs nm (visited, result) =
     (case visit defs b (visited @ [nm], result) of
        Inl e \<Rightarrow> Inl e
      | Inr (visited', result') \<Rightarrow> Inr (visited', result' @ [nm]))"
  by (subst visit.simps) simp

lemma visit_new_names:
  assumes "visit defs nm (visited, result) = Inr (visited', result')"
  shows "\<exists>N. set visited' = set visited \<union> N \<and> set result' = set result \<union> N \<and>
             N \<subseteq> fst ` set defs \<and> nm \<in> set visited \<union> N"
  using assms
proof (induction defs nm "(visited, result)" arbitrary: visited result visited' result'
    rule: visit.induct)
  case (1 defs nm visited result)
  show ?case
  proof (cases "nm \<in> set visited")
    case True
    with "1.prems" have "visited' = visited" "result' = result" by (simp_all add: visit_seen)
    with True show ?thesis by (intro exI[of _ "{}"]) simp
  next
    case False
    from "1.prems" False obtain d where d: "map_of defs nm = Some d"
      using visit_undefined[OF False, of defs result] by (cases "map_of defs nm") auto
    then have mem: "nm \<in> fst ` set defs" by (metis map_of_eq_None_iff option.distinct(1))
    show ?thesis
    proof (cases "followedBase d")
      case None
      with "1.prems" False d have "visited' = visited @ [nm]" "result' = result @ [nm]"
        by (simp_all add: visit_leaf)
      with mem show ?thesis by (intro exI[of _ "{nm}"]) auto
    next
      case (Some b)
      from "1.prems" False d Some obtain v1 r1 where
        r: "visit defs b (visited @ [nm], result) = Inr (v1, r1)"
        and e: "visited' = v1" "result' = r1 @ [nm]"
        by (auto simp: visit_follow split: sum.splits)
      from "1.hyps"[OF False d Some r] obtain N where
        N: "set v1 = set (visited @ [nm]) \<union> N" "set r1 = set result \<union> N" "N \<subseteq> fst ` set defs"
        by blast
      show ?thesis
        using N e mem by (intro exI[of _ "insert nm N"]) auto
    qed
  qed
qed

lemma visit_all_new_names:
  assumes "visit_all defs names (visited, result) = Inr (visited', result')"
  shows "\<exists>N. set visited' = set visited \<union> N \<and> set result' = set result \<union> N \<and>
             N \<subseteq> fst ` set defs \<and> set names \<subseteq> set visited \<union> N"
  using assms
proof (induction names arbitrary: visited result)
  case Nil
  then show ?case by (intro exI[of _ "{}"]) simp
next
  case (Cons nm rest)
  from Cons.prems obtain v1 r1 where
    v: "visit defs nm (visited, result) = Inr (v1, r1)"
    and r: "visit_all defs rest (v1, r1) = Inr (visited', result')"
    by (auto split: sum.splits)
  from visit_new_names[OF v] obtain N1 where
    N1: "set v1 = set visited \<union> N1" "set r1 = set result \<union> N1" "N1 \<subseteq> fst ` set defs"
      "nm \<in> set visited \<union> N1" by blast
  from Cons.IH[OF r] obtain N2 where
    N2: "set visited' = set v1 \<union> N2" "set result' = set r1 \<union> N2" "N2 \<subseteq> fst ` set defs"
      "set rest \<subseteq> set v1 \<union> N2" by blast
  show ?case
    using N1 N2 by (intro exI[of _ "N1 \<union> N2"]) auto
qed

lemma topoSort_names:
  assumes "topoSort defs = Inr order"
  shows "set order = set (map fst defs)"
proof -
  from assms obtain visited where
    "visit_all defs (map fst defs) ([], []) = Inr (visited, order)"
    by (auto simp: topoSort_def split: sum.splits)
  from visit_all_new_names[OF this] show ?thesis by auto
qed

lemma setPass_keys:
  assumes "setPass entry order res = Inr res'"
  shows "set (map fst res') = set (map fst res) \<union> set order \<and>
         (distinct (map fst res) \<longrightarrow> distinct (map fst res'))"
  using assms
proof (induction order arbitrary: res)
  case Nil
  then show ?case by simp
next
  case (Cons nm rest)
  from Cons.prems obtain rc where
    r: "setPass entry rest (AList.update nm rc res) = Inr res'"
    by (auto split: sum.splits)
  from Cons.IH[OF r] show ?case
    by (auto simp: dom_update distinct_update)
qed

text \<open>
  Whenever \<^verbatim>\<open>resolve\<close> does return a map, the map has exactly one entry for each name of
  the input and no other entry.
\<close>

lemma resolve_returns_one_entry_per_name:
  assumes "resolveAllColors M globalConfig seedHue seedSaturation defs c = (Inr result, c')"
  shows "distinct (map fst result) \<and> set (map fst result) = set (map fst defs)"
proof -
  from assms obtain order lightMap darkMap lightHCMap darkHCMap where
    t: "topoSort defs = Inr order"
    and fin: "setPass (final_entry defs lightMap darkMap lightHCMap darkHCMap) order [] = Inr result"
    unfolding resolveAllColors_def Let_def
    by (auto split: sum.splits prod.splits)
  from setPass_keys[OF fin] topoSort_names[OF t] show ?thesis by simp
qed

subsection \<open>Cycle detection\<close>

lemma walk_add:
  "walk nxt (i + j) a = (case walk nxt i a of None \<Rightarrow> None | Some b \<Rightarrow> walk nxt j b)"
  by (induction i arbitrary: a) (auto split: option.splits)

lemma walk_cycle_mult:
  assumes "walk nxt n a = Some a"
  shows "walk nxt (k * n) a = Some a"
proof (induction k)
  case 0
  then show ?case by simp
next
  case (Suc k)
  have "walk nxt (n + k * n) a = (case walk nxt n a of None \<Rightarrow> None | Some b \<Rightarrow> walk nxt (k * n) b)"
    by (rule walk_add)
  with assms Suc show ?case by simp
qed

lemma walk_cycle_never_ends:
  assumes "walk nxt n a = Some a" "0 < n"
  shows "walk nxt k a \<noteq> None"
proof
  assume e: "walk nxt k a = None"
  have "k \<le> k * n" using assms(2) by simp
  then obtain j where j: "k * n = k + j" using le_Suc_ex by blast
  have "walk nxt (k + j) a = None"
    using e by (simp add: walk_add)
  with walk_cycle_mult[OF assms(1), of k] j show False by simp
qed

lemma diverges_step:
  "nxt a = Some b \<Longrightarrow> diverges nxt a = diverges nxt b"
  unfolding diverges_def
proof
  assume n: "nxt a = Some b" and a: "\<forall>k. walk nxt k a \<noteq> None"
  show "\<forall>k. walk nxt k b \<noteq> None"
  proof
    fix k from a have "walk nxt (Suc k) a \<noteq> None" by blast
    with n show "walk nxt k b \<noteq> None" by simp
  qed
next
  assume n: "nxt a = Some b" and b: "\<forall>k. walk nxt k b \<noteq> None"
  show "\<forall>k. walk nxt k a \<noteq> None"
  proof
    fix k show "walk nxt k a \<noteq> None"
      using n b by (cases k) auto
  qed
qed

lemma diverges_has_next: "diverges nxt a \<Longrightarrow> nxt a \<noteq> None"
proof -
  assume "diverges nxt a"
  then have "walk nxt (Suc 0) a \<noteq> None" unfolding diverges_def by blast
  then show ?thesis by (auto split: option.splits)
qed

lemma dfs_inStack:
  "nm \<in> set inStack \<Longrightarrow> dfs defs inStack visited nm = Inl (CircularBase nm)"
  by (subst dfs.simps) simp

lemma dfs_visited:
  "nm \<notin> set inStack \<Longrightarrow> nm \<in> set visited \<Longrightarrow> dfs defs inStack visited nm = Inr visited"
  by (subst dfs.simps) simp

lemma dfs_undefined:
  "nm \<notin> set inStack \<Longrightarrow> nm \<notin> set visited \<Longrightarrow> map_of defs nm = None \<Longrightarrow>
   dfs defs inStack visited nm = Inl (TypeError nm)"
  by (subst dfs.simps) simp

lemma dfs_leaf:
  "nm \<notin> set inStack \<Longrightarrow> nm \<notin> set visited \<Longrightarrow> map_of defs nm = Some d \<Longrightarrow>
   followedBase d = None \<Longrightarrow> dfs defs inStack visited nm = Inr (visited @ [nm])"
  by (subst dfs.simps) simp

lemma dfs_follow:
  "nm \<notin> set inStack \<Longrightarrow> nm \<notin> set visited \<Longrightarrow> map_of defs nm = Some d \<Longrightarrow>
   followedBase d = Some b \<Longrightarrow>
   dfs defs inStack visited nm =
     (case dfs defs (inStack @ [nm]) visited b of
        Inl e \<Rightarrow> Inl e
      | Inr visited' \<Rightarrow> Inr (visited' @ [nm]))"
  by (subst dfs.simps) simp

lemma dfs_diverging:
  assumes "diverges (followed_of defs) nm"
    and "\<forall>v \<in> set visited. \<not> diverges (followed_of defs) v"
  shows "\<exists>x. dfs defs inStack visited nm = Inl (CircularBase x)"
  using assms
proof (induction defs inStack visited nm rule: dfs.induct)
  case (1 defs inStack visited nm)
  show ?case
  proof (cases "nm \<in> set inStack")
    case True
    then show ?thesis by (simp add: dfs_inStack)
  next
    case False
    from "1.prems" have nv: "nm \<notin> set visited" by blast
    from diverges_has_next[OF "1.prems"(1)] obtain d b where
      d: "map_of defs nm = Some d" and b: "followedBase d = Some b"
      by (auto simp: followed_of_def split: option.splits)
    have "followed_of defs nm = Some b" using d b by (simp add: followed_of_def)
    from diverges_step[of "followed_of defs" nm b, OF this] "1.prems"(1)
    have db: "diverges (followed_of defs) b" by simp
    from "1.IH"[OF False nv d b db "1.prems"(2)] obtain x where
      "dfs defs (inStack @ [nm]) visited b = Inl (CircularBase x)" by blast
    with False nv d b show ?thesis by (simp add: dfs_follow)
  qed
qed

lemma dfs_returns_terminating:
  assumes "dfs defs inStack visited nm = Inr visited'"
    and "\<forall>v \<in> set visited. \<not> diverges (followed_of defs) v"
  shows "\<forall>v \<in> set visited'. \<not> diverges (followed_of defs) v"
  using assms
proof (induction defs inStack visited nm arbitrary: visited' rule: dfs.induct)
  case (1 defs inStack visited nm)
  from "1.prems"(1) have ns: "nm \<notin> set inStack"
    using dfs_inStack[of nm inStack defs visited] by auto
  show ?case
  proof (cases "nm \<in> set visited")
    case True
    with ns "1.prems" show ?thesis by (simp add: dfs_visited)
  next
    case False
    from "1.prems"(1) ns False obtain d where d: "map_of defs nm = Some d"
      using dfs_undefined[of nm inStack visited defs] by (cases "map_of defs nm") auto
    show ?thesis
    proof (cases "followedBase d")
      case None
      then have "followed_of defs nm = None" using d by (simp add: followed_of_def)
      then have "\<not> diverges (followed_of defs) nm" using diverges_has_next by blast
      moreover have "visited' = visited @ [nm]"
        using "1.prems"(1) ns False d None by (simp add: dfs_leaf)
      ultimately show ?thesis using "1.prems"(2) by auto
    next
      case (Some b)
      from "1.prems"(1) ns False d Some obtain v1 where
        r: "dfs defs (inStack @ [nm]) visited b = Inr v1" and v': "visited' = v1 @ [nm]"
        by (auto simp: dfs_follow split: sum.splits)
      from "1.IH"[OF ns False d Some r "1.prems"(2)]
      have iv: "\<forall>v \<in> set v1. \<not> diverges (followed_of defs) v" .
      have "\<not> diverges (followed_of defs) b"
        using dfs_diverging[of defs b visited "inStack @ [nm]"] r "1.prems"(2) by auto
      moreover have "followed_of defs nm = Some b" using d Some by (simp add: followed_of_def)
      ultimately have "\<not> diverges (followed_of defs) nm" using diverges_step by blast
      with iv v' show ?thesis by auto
    qed
  qed
qed

lemma dfs_error_is_circular:
  assumes "dfs defs inStack visited nm = Inl e" "bases_exist defs" "nm \<in> fst ` set defs"
  shows "\<exists>x. e = CircularBase x"
  using assms
proof (induction defs inStack visited nm rule: dfs.induct)
  case (1 defs inStack visited nm)
  show ?case
  proof (cases "nm \<in> set inStack")
    case True
    with "1.prems"(1) show ?thesis by (auto simp: dfs_inStack)
  next
    case False
    from "1.prems"(1) False have nv: "nm \<notin> set visited"
      using dfs_visited[of nm inStack visited defs] by auto
    from "1.prems"(3) obtain d where d: "map_of defs nm = Some d"
      by (metis map_of_eq_None_iff not_Some_eq)
    from "1.prems"(1) False nv d obtain b where b: "followedBase d = Some b"
      and r: "dfs defs (inStack @ [nm]) visited b = Inl e"
      using dfs_leaf[OF False nv d] dfs_follow[OF False nv d]
      by (cases "followedBase d") (auto split: sum.splits)
    have "(nm, d) \<in> set defs" using d by (rule map_of_SomeD)
    with "1.prems"(2) b have "b \<in> fst ` set defs" unfolding bases_exist_def by blast
    from "1.IH"[OF False nv d b r "1.prems"(2) this] show ?thesis .
  qed
qed

lemma dfs_all_diverging:
  assumes "bases_exist defs" "set names \<subseteq> fst ` set defs"
    and "\<exists>a \<in> set names. diverges (followed_of defs) a"
    and "\<forall>v \<in> set visited. \<not> diverges (followed_of defs) v"
  shows "\<exists>x. dfs_all defs names visited = Inl (CircularBase x)"
  using assms(2-)
proof (induction names arbitrary: visited)
  case Nil
  then show ?case by simp
next
  case (Cons nm rest)
  show ?case
  proof (cases "dfs defs [] visited nm")
    case (Inl e)
    from dfs_error_is_circular[OF Inl assms(1)] Cons.prems(1) obtain x where "e = CircularBase x"
      by auto
    with Inl show ?thesis by simp
  next
    case (Inr v1)
    from dfs_returns_terminating[OF Inr Cons.prems(3)]
    have iv: "\<forall>v \<in> set v1. \<not> diverges (followed_of defs) v" .
    have "\<not> diverges (followed_of defs) nm"
      using dfs_diverging[of defs nm visited "[]"] Inr Cons.prems(3) by auto
    with Cons.prems(2) have ex: "\<exists>a \<in> set rest. diverges (followed_of defs) a" by auto
    from Cons.IH[OF _ ex iv] Cons.prems(1) Inr show ?thesis by simp
  qed
qed

lemma validate_entries_bases_exist:
  assumes "validate_entries names defs = None"
  shows "\<forall>(nm, d) \<in> set defs. \<forall>b. followedBase d = Some b \<longrightarrow> b \<in> set names"
  using assms
proof (induction defs)
  case Nil
  then show ?case by simp
next
  case (Cons p rest)
  obtain nm d where p: "p = (nm, d)" by (cases p)
  from Cons.prems p have e: "validate_entry names nm d = None"
    and r: "validate_entries names rest = None"
    by (auto split: option.splits)
  have "\<forall>b. followedBase d = Some b \<longrightarrow> b \<in> set names"
    using e by (auto simp: validate_entry_def followedBase_def split: if_splits)
  with Cons.IH[OF r] p show ?case by simp
qed

text \<open>
  C5 (amended). For every colour map that passes the per-definition checks of the
  validation and whose followed base edges (the base of a colour that lacks absolute
  lightness) contain a cycle, of length at least 2 or of length 1, \<^verbatim>\<open>resolve\<close> aborts with
  the circular-base-reference error raised by the validation, before any evaluation
  (the cache is untouched), for all seeds, configurations and caches.
\<close>

theorem followed_cycle_raises_circular:
  assumes "validate_entries (map fst defs) defs = None"
    and "0 < n" "walk (followed_of defs) n a = Some a"
  shows "\<exists>x. validateColorDefs defs = Inl (CircularBase x) \<and>
             resolveAllColors M globalConfig seedHue seedSaturation defs c
               = (Inl (CircularBase x), c)"
proof -
  have be: "bases_exist defs"
    using validate_entries_bases_exist[OF assms(1)] unfolding bases_exist_def by simp
  have dv: "diverges (followed_of defs) a"
    unfolding diverges_def using walk_cycle_never_ends[OF assms(3,2)] by blast
  from diverges_has_next[OF dv] have "map_of defs a \<noteq> None"
    by (auto simp: followed_of_def split: option.splits)
  then have "a \<in> set (map fst defs)"
    by (metis map_of_eq_None_iff set_map)
  with dv have ex: "\<exists>a \<in> set (map fst defs). diverges (followed_of defs) a" by blast
  from dfs_all_diverging[OF be _ ex, of "[]"] obtain x where
    "dfs_all defs (map fst defs) [] = Inl (CircularBase x)" by auto
  with assms(1) have "validateColorDefs defs = Inl (CircularBase x)"
    by (simp add: validateColorDefs_def)
  then show ?thesis by (auto simp: resolveAllColors_def)
qed

theorem followed_cycle_raises_circular_witness:
  "validate_entries (map fst two_cycle) two_cycle = None \<and>
   walk (followed_of two_cycle) 2 ''a'' = Some ''a'' \<and>
   (\<exists>x. validateColorDefs two_cycle = Inl (CircularBase x) \<and>
        resolveAllColors sample_math defaultConfig 280 80 two_cycle empty_cache
          = (Inl (CircularBase x), empty_cache))"
proof -
  have v: "validate_entries (map fst two_cycle) two_cycle = None"
    by (simp add: two_cycle_def emptyDef_def validate_entry_def)
  have w: "walk (followed_of two_cycle) 2 ''a'' = Some ''a''"
    by (simp add: numeral_2_eq_2 two_cycle_def emptyDef_def followed_of_def followedBase_def)
  from followed_cycle_raises_circular[OF v _ w, of sample_math defaultConfig 280 80 empty_cache] v w
  show ?thesis by simp
qed

text \<open>
  C5 as stated fails: the base references of both maps contain the cycle \<open>a \<rightarrow> b \<rightarrow> a\<close>
  of length 2, and \<^verbatim>\<open>resolve\<close> aborts with another error. In the first the edge out of
  \<open>a\<close> is not followed, since \<open>a\<close> has absolute lightness; in the second the
  per-definition check of \<open>c\<close> throws before the cycle detection runs.
\<close>

theorem base_cycle_counterexample:
  "(walk (base_of abs_cycle) 2 ''a'' = Some ''a'' \<and> walk (base_of abs_cycle) 1 ''a'' = Some ''b'' \<and>
    resolveAllColors sample_math defaultConfig 280 80 abs_cycle empty_cache
      = (Inl (BaseNotResolved ''b'' ''a''), empty_cache)) \<and>
   (walk (base_of cycle_and_orphan) 2 ''a'' = Some ''a'' \<and>
    walk (base_of cycle_and_orphan) 1 ''a'' = Some ''b'' \<and>
    resolveAllColors sample_math defaultConfig 280 80 cycle_and_orphan empty_cache
      = (Inl (MissingPosition ''c''), empty_cache))"
proof -
  have v: "validateColorDefs abs_cycle = Inr ()"
    by (simp add: validateColorDefs_def abs_cycle_def emptyDef_def
        validate_entry_def dfs.simps followedBase_def)
  have t: "topoSort abs_cycle = Inr [''a'', ''b'']"
    by (simp add: topoSort_def abs_cycle_def emptyDef_def visit.simps followedBase_def)
  have r1: "resolveAllColors sample_math defaultConfig 280 80 abs_cycle empty_cache
      = (Inl (BaseNotResolved ''b'' ''a''), empty_cache)"
    unfolding resolveAllColors_def v t
    by (simp add: abs_cycle_def emptyDef_def resolveColorForScheme_def
        resolveDependentColor_def)
  have r2: "resolveAllColors sample_math defaultConfig 280 80 cycle_and_orphan empty_cache
      = (Inl (MissingPosition ''c''), empty_cache)"
    by (simp add: resolveAllColors_def validateColorDefs_def cycle_and_orphan_def emptyDef_def
        validate_entry_def)
  have w1: "walk (base_of abs_cycle) 2 ''a'' = Some ''a'' \<and> walk (base_of abs_cycle) 1 ''a'' = Some ''b''"
    by (simp add: numeral_2_eq_2 abs_cycle_def emptyDef_def base_of_def)
  have w2: "walk (base_of cycle_and_orphan) 2 ''a'' = Some ''a'' \<and>
    walk (base_of cycle_and_orphan) 1 ''a'' = Some ''b''"
    by (simp add: numeral_2_eq_2 cycle_and_orphan_def emptyDef_def base_of_def)
  from r1 r2 w1 w2 show ?thesis by simp
qed


subsection \<open>The solver and its cache\<close>

lemma set_AList_delete: "x \<in> set (AList.delete k al) \<Longrightarrow> x \<in> set al"
  by (induction al) (auto split: if_splits)

lemma cachedLuminance_value:
  assumes "cache_ok M c"
  shows "fst (cachedLuminance M h s l c) = lum M h s (round4 l)"
proof (cases "map_of (luminanceCache c) (h, s, round4 l)")
  case None
  then show ?thesis
    by (simp add: cachedLuminance_def Let_def round4_def lum_def)
next
  case (Some y)
  then have "((h, s, round4 l), y) \<in> set (luminanceCache c)" by (rule map_of_SomeD)
  with assms have "y = lum M h s (round4 l)" unfolding cache_ok_def by blast
  with Some show ?thesis
    by (simp add: cachedLuminance_def Let_def round4_def)
qed

lemma cachedLuminance_cache_ok:
  assumes "cache_ok M c"
  shows "cache_ok M (snd (cachedLuminance M h s l c))"
proof (cases "map_of (luminanceCache c) (h, s, round4 l)")
  case (Some y)
  with assms show ?thesis
    by (simp add: cachedLuminance_def Let_def round4_def)
next
  case None
  define c1 where "c1 = (if length (luminanceCache c) \<ge> CACHE_SIZE
                       then (case cacheOrder c of
                               [] \<Rightarrow> c
                             | evict # rest \<Rightarrow>
                                 c\<lparr>luminanceCache := AList.delete evict (luminanceCache c),
                                   cacheOrder := rest\<rparr>)
                       else c)"
  have sub: "set (luminanceCache c1) \<subseteq> set (luminanceCache c)"
    unfolding c1_def by (auto split: list.splits dest: set_AList_delete)
  have eq: "snd (cachedLuminance M h s l c) =
      c1\<lparr>luminanceCache := AList.update (h, s, round4 l) (lum M h s (round4 l)) (luminanceCache c1),
         cacheOrder := cacheOrder c1 @ [(h, s, round4 l)]\<rparr>"
    using None by (simp add: cachedLuminance_def Let_def round4_def lum_def c1_def)
  show ?thesis
    unfolding eq cache_ok_def
  proof (clarsimp)
    fix h' s' l' y
    assume "((h', s', l'), y) \<in> set (AList.update (h, s, round4 l) (lum M h s (round4 l)) (luminanceCache c1))"
    then have "((h', s', l'), y) = ((h, s, round4 l), lum M h s (round4 l)) \<or>
               ((h', s', l'), y) \<in> set (luminanceCache c1)"
      by (rule set_AList_update)
    then show "y = lum M h' s' l'"
      using sub assms unfolding cache_ok_def by auto
  qed
qed

lemma cachedLuminance_pure:
  assumes "cache_ok M c"
  obtains c' where "cachedLuminance M h s l c = (lum M h s (round4 l), c')" "cache_ok M c'"
  using cachedLuminance_value[OF assms, of h s l] cachedLuminance_cache_ok[OF assms, of h s l]
  by (cases "cachedLuminance M h s l c") auto

lemma searchBranch_loop_pure:
  assumes "cache_ok M c"
  shows "fst (searchBranch_loop n M h s yBase target eps pref low high c)
           = bisect_pure n (measured M h s yBase) target eps pref low high \<and>
         cache_ok M (snd (searchBranch_loop n M h s yBase target eps pref low high c))"
  using assms
proof (induction n arbitrary: low high c)
  case 0
  then show ?case by simp
next
  case (Suc n)
  obtain c1 where c1: "cachedLuminance M h s ((low + high) / 2) c
      = (lum M h s (round4 ((low + high) / 2)), c1)" "cache_ok M c1"
    using cachedLuminance_pure[OF Suc.prems] by blast
  show ?case
    using Suc.IH[OF c1(2)] Suc.prems
    by (simp add: c1(1) Let_def measured_def)
qed

lemma coarseScan_samples_pure:
  assumes "cache_ok M c"
  shows "fst (coarseScan_samples M h s lo step yBase target is best c)
           = samples_pure (measured M h s yBase) lo step target is best \<and>
         cache_ok M (snd (coarseScan_samples M h s lo step yBase target is best c))"
  using assms
proof (induction "is" arbitrary: best c)
  case Nil
  then show ?case by simp
next
  case (Cons i "is")
  obtain bestL bestCr bestMet where b: "best = (bestL, bestCr, bestMet)" by (cases best)
  obtain c1 where c1: "cachedLuminance M h s (lo + step * real i) c
      = (lum M h s (round4 (lo + step * real i)), c1)" "cache_ok M c1"
    using cachedLuminance_pure[OF Cons.prems] by blast
  show ?case
    using Cons.IH[OF c1(2)]
    by (simp add: b c1(1) Let_def measured_def)
qed

lemma coarseScan_refine_pure:
  assumes "cache_ok M c"
  shows "fst (coarseScan_refine n M h s yBase target eps st c)
           = refine_pure n (measured M h s yBase) target eps st \<and>
         cache_ok M (snd (coarseScan_refine n M h s yBase target eps st c))"
  using assms
proof (induction n arbitrary: st c)
  case 0
  then show ?case by simp
next
  case (Suc n)
  obtain rLo rHi bestL bestCr where st: "st = (rLo, rHi, bestL, bestCr)" by (cases st)
  obtain c1 where c1: "cachedLuminance M h s ((rLo + rHi) / 2) c
      = (lum M h s (round4 ((rLo + rHi) / 2)), c1)" "cache_ok M c1"
    using cachedLuminance_pure[OF Suc.prems] by blast
  show ?case
    using Suc.IH[OF c1(2)] Suc.prems
    by (simp add: st c1(1) Let_def measured_def)
qed

lemma coarseScan_pure:
  assumes "cache_ok M c"
  shows "fst (coarseScan M h s lo hi yBase target eps maxIter c)
           = coarseScan_p (measured M h s yBase) lo hi target eps maxIter \<and>
         cache_ok M (snd (coarseScan M h s lo hi yBase target eps maxIter c))"
proof -
  let ?f = "measured M h s yBase"
  let ?step = "(hi - lo) / real STEPS"
  obtain b1 c1 where s1: "coarseScan_samples M h s lo ?step yBase target [0 ..< Suc STEPS] (lo, 0, False) c = (b1, c1)"
    by fastforce
  from coarseScan_samples_pure[OF assms, of h s lo ?step yBase target "[0 ..< Suc STEPS]" "(lo, 0, False)"] s1
  have b1: "b1 = samples_pure ?f lo ?step target [0 ..< Suc STEPS] (lo, 0, False)" and ok1: "cache_ok M c1"
    by simp_all
  obtain bestL bestCr bestMet where b: "b1 = (bestL, bestCr, bestMet)" by (cases b1)
  obtain st2 c2 where s2: "coarseScan_refine maxIter M h s yBase target eps (bestL - ?step, bestL, bestL, bestCr) c1 = (st2, c2)"
    by fastforce
  from coarseScan_refine_pure[OF ok1, of maxIter h s yBase target eps "(bestL - ?step, bestL, bestL, bestCr)"] s2
  have st2: "st2 = refine_pure maxIter ?f target eps (bestL - ?step, bestL, bestL, bestCr)" and ok2: "cache_ok M c2"
    by simp_all
  obtain rLo rHi bestL' bestCr' where r: "st2 = (rLo, rHi, bestL', bestCr')" by (cases st2)
  show ?thesis
    unfolding coarseScan_def coarseScan_p_def Let_def s1 b1[symmetric] b
    using ok1 ok2 s2 st2 r
    by (simp del: upt_Suc split: prod.splits)
qed


lemma searchBranch_pure:
  assumes "cache_ok M c"
  shows "fst (searchBranch M h s lo hi yBase target eps maxIter pref c)
           = searchBranch_p (measured M h s yBase) lo hi target eps maxIter pref \<and>
         cache_ok M (snd (searchBranch M h s lo hi yBase target eps maxIter pref c))"
proof -
  let ?f = "measured M h s yBase"
  obtain c1 where c1: "cachedLuminance M h s lo c = (lum M h s (round4 lo), c1)" "cache_ok M c1"
    using cachedLuminance_pure[OF assms] by blast
  obtain c2 where c2: "cachedLuminance M h s hi c1 = (lum M h s (round4 hi), c2)" "cache_ok M c2"
    using cachedLuminance_pure[OF c1(2)] by blast
  obtain low high c3 where l: "searchBranch_loop maxIter M h s yBase target eps pref lo hi c2
      = ((low, high), c3)"
    by (metis surj_pair)
  from searchBranch_loop_pure[OF c2(2), of maxIter h s yBase target eps pref lo hi] l
  have lh: "bisect_pure maxIter ?f target eps pref lo hi = (low, high)" and ok3: "cache_ok M c3"
    by simp_all
  obtain c4 where c4: "cachedLuminance M h s low c3 = (lum M h s (round4 low), c4)" "cache_ok M c4"
    using cachedLuminance_pure[OF ok3] by blast
  obtain c5 where c5: "cachedLuminance M h s high c4 = (lum M h s (round4 high), c5)" "cache_ok M c5"
    using cachedLuminance_pure[OF c4(2)] by blast
  from coarseScan_pure[OF c5(2), of h s lo hi yBase target eps maxIter]
  have cs: "fst (coarseScan M h s lo hi yBase target eps maxIter c5)
           = coarseScan_p ?f lo hi target eps maxIter"
    "cache_ok M (snd (coarseScan M h s lo hi yBase target eps maxIter c5))" by simp_all
  have f: "\<And>x. contrastRatioFromLuminance (lum M h s (round4 x)) yBase = ?f x"
    by (simp add: measured_def)
  show ?thesis
    using c2(2) c5(2) cs
    by (simp add: searchBranch_def searchBranch_p_def Let_def c1(1) c2(1) l lh c4(1) c5(1) f)
qed

lemma findLightnessForContrast_pure:
  assumes "cache_ok M c"
  shows "fst (findLightnessForContrast M options c)
           = find_p (opt_measured M options) (opt_target options) (o_preferredLightness options)
               (fst (opt_range options)) (snd (opt_range options)) (opt_epsilon options)
               (opt_maxIterations options) \<and>
         cache_ok M (snd (findLightnessForContrast M options c))"
proof -
  let ?h = "o_hue options" and ?s = "o_saturation options"
  let ?p = "o_preferredLightness options"
  let ?yB = "relativeLuminanceFromLinearRgb M (o_baseLinearRgb options)"
  let ?f = "opt_measured M options"
  let ?t = "opt_target options" and ?e = "opt_epsilon options" and ?n = "opt_maxIterations options"
  obtain minL maxL where r: "opt_range options = (minL, maxL)" by fastforce
  have f: "\<And>x. contrastRatioFromLuminance (lum M ?h ?s (round4 x)) ?yB = ?f x"
    by (simp add: measured_def opt_measured_def)
  obtain c1 where c1: "cachedLuminance M ?h ?s ?p c = (lum M ?h ?s (round4 ?p), c1)" "cache_ok M c1"
    using cachedLuminance_pure[OF assms] by blast
  obtain d c2 where d: "searchBranch M ?h ?s minL ?p ?yB ?t ?e ?n ?p c1 = (d, c2)" by fastforce
  from searchBranch_pure[OF c1(2), of ?h ?s minL ?p ?yB ?t ?e ?n ?p] d
  have dp: "d = searchBranch_p ?f minL ?p ?t ?e ?n ?p" and ok2: "cache_ok M c2"
    by (simp_all add: opt_measured_def)
  define c2' where "c2' = (if ?p > minL then c2 else c1)"
  have ok2': "cache_ok M c2'" using ok2 c1(2) by (simp add: c2'_def)
  obtain l c3 where l: "searchBranch M ?h ?s ?p maxL ?yB ?t ?e ?n ?p c2' = (l, c3)" by fastforce
  from searchBranch_pure[OF ok2', of ?h ?s ?p maxL ?yB ?t ?e ?n ?p] l
  have lp: "l = searchBranch_p ?f ?p maxL ?t ?e ?n ?p" and ok3: "cache_ok M c3"
    by (simp_all add: opt_measured_def)
  have R: "(case o_lightnessRange options of None \<Rightarrow> (0, 1) | Some r \<Rightarrow> r) = (minL, maxL)"
    using r by (simp add: opt_range_def)
  have E: "(case o_epsilon options of None \<Rightarrow> 1 / 10000 | Some e \<Rightarrow> e) = ?e"
    by (simp add: opt_epsilon_def)
  have N: "(case o_maxIterations options of None \<Rightarrow> 14 | Some n \<Rightarrow> n) = ?n"
    by (simp add: opt_maxIterations_def)
  have T: "resolveMinContrast (o_contrast options) = ?t"
    by (simp add: opt_target_def)
  show ?thesis
  proof (cases "?f ?p \<ge> ?t")
    case True
    then show ?thesis
      using c1(2)
      by (simp add: findLightnessForContrast_def find_p_def Let_def R E N T c1(1) f)
  next
    case False
    show ?thesis
    proof (cases "?p > minL")
      case dk: True
      then have c2': "c2' = c2" by (simp add: c2'_def)
      show ?thesis
      proof (cases "?p < maxL")
        case True
        then show ?thesis
          using False dk ok3 l dp lp
          by (simp add: findLightnessForContrast_def find_p_def Let_def R E N T c1(1) f r d c2'[symmetric])
      next
        case lt: False
        then show ?thesis
          using False dk ok2 dp
          by (simp add: findLightnessForContrast_def find_p_def Let_def R E N T c1(1) f r d)
      qed
    next
      case dk: False
      then have c2': "c2' = c1" by (simp add: c2'_def)
      show ?thesis
      proof (cases "?p < maxL")
        case True
        then show ?thesis
          using False dk ok3 l lp
          by (simp add: findLightnessForContrast_def find_p_def Let_def R E N T c1(1) f r c2'[symmetric])
      next
        case lt: False
        then show ?thesis
          using False dk c1(2)
          by (simp add: findLightnessForContrast_def find_p_def Let_def R E N T c1(1) f r)
      qed
    qed
  qed
qed

lemma findLightnessForContrast_cache_independent:
  assumes "cache_ok M c1" "cache_ok M c2"
  shows "fst (findLightnessForContrast M options c1) = fst (findLightnessForContrast M options c2)"
  using findLightnessForContrast_pure[OF assms(1)] findLightnessForContrast_pure[OF assms(2)]
  by simp





lemma searchBranch_p_infeasible:
  assumes "f lo < target" "f hi < target"
  shows "searchBranch_p f lo hi target eps n pref =
           (if f lo \<ge> f hi then \<lparr>res_lightness = lo, res_contrast = f lo, met = False\<rparr>
            else \<lparr>res_lightness = hi, res_contrast = f hi, met = False\<rparr>)"
  using assms by (simp add: searchBranch_p_def Let_def)



lemma samples_pure_met:
  assumes "samples_pure f lo step target is best = (bestL, bestCr, bestMet)"
    and "snd (snd best) \<longrightarrow> fst (snd best) = f (fst best) \<and> fst (snd best) \<ge> target"
  shows "bestMet \<longrightarrow> bestCr = f bestL \<and> bestCr \<ge> target"
  using assms
proof (induction "is" arbitrary: best)
  case Nil
  then show ?case by auto
next
  case (Cons i "is")
  obtain bL bC bM where b: "best = (bL, bC, bM)" by (cases best)
  let ?l = "lo + step * real i"
  define nb where "nb = (if f ?l \<ge> target \<and> \<not> bM then (?l, f ?l, True)
        else if f ?l \<ge> target \<and> bM then (?l, f ?l, bM)
        else if \<not> bM \<and> f ?l > bC then (?l, f ?l, bM)
        else (bL, bC, bM))"
  have "samples_pure f lo step target (i # is) best = samples_pure f lo step target is nb"
    unfolding b nb_def by (simp add: Let_def)
  with Cons.prems(1) have r: "samples_pure f lo step target is nb = (bestL, bestCr, bestMet)"
    by simp
  have "snd (snd nb) \<longrightarrow> fst (snd nb) = f (fst nb) \<and> fst (snd nb) \<ge> target"
    using Cons.prems(2) unfolding b nb_def by auto
  from Cons.IH[OF r this] show ?case .
qed

lemma refine_pure_met:
  assumes "refine_pure n f target eps (rLo, rHi, bL, bC) = (rLo', rHi', bL', bC')"
    and "bC = f bL \<and> bC \<ge> target"
  shows "bC' = f bL' \<and> bC' \<ge> target"
  using assms
proof (induction n arbitrary: rLo rHi bL bC)
  case 0
  then show ?case by auto
next
  case (Suc n)
  show ?case
  proof (cases "rHi - rLo < eps")
    case True
    with Suc.prems show ?thesis by auto
  next
    case False
    show ?thesis
    proof (cases "f ((rLo + rHi) / 2) \<ge> target")
      case True
      with False Suc.prems(1) have
        "refine_pure n f target eps (rLo, (rLo + rHi) / 2, (rLo + rHi) / 2, f ((rLo + rHi) / 2))
           = (rLo', rHi', bL', bC')" by (simp add: Let_def)
      from Suc.IH[OF this] True show ?thesis by simp
    next
      case F: False
      with False Suc.prems(1) have
        "refine_pure n f target eps ((rLo + rHi) / 2, rHi, bL, bC) = (rLo', rHi', bL', bC')"
        by (simp add: Let_def)
      from Suc.IH[OF this Suc.prems(2)] show ?thesis .
    qed
  qed
qed

lemma coarseScan_p_met:
  assumes "met (coarseScan_p f lo hi target eps n)"
  shows "res_contrast (coarseScan_p f lo hi target eps n)
           = f (res_lightness (coarseScan_p f lo hi target eps n)) \<and>
         res_contrast (coarseScan_p f lo hi target eps n) \<ge> target"
proof -
  let ?step = "(hi - lo) / real STEPS"
  obtain bestL bestCr bestMet where
    s: "samples_pure f lo ?step target [0 ..< Suc STEPS] (lo, 0, False) = (bestL, bestCr, bestMet)"
    by (metis surj_pair)
  from samples_pure_met[OF s] have m: "bestMet \<longrightarrow> bestCr = f bestL \<and> bestCr \<ge> target" by auto
  obtain rLo rHi bL' bC' where
    r: "refine_pure n f target eps (bestL - ?step, bestL, bestL, bestCr) = (rLo, rHi, bL', bC')"
    by (metis surj_pair)
  have e: "coarseScan_p f lo hi target eps n =
      (if bestMet \<and> bestL > lo + ?step
       then \<lparr>res_lightness = bL', res_contrast = bC', met = bestMet\<rparr>
       else \<lparr>res_lightness = bestL, res_contrast = bestCr, met = bestMet\<rparr>)"
    by (simp add: coarseScan_p_def Let_def s r del: upt_Suc)
  have bm: "bestMet" using assms unfolding e by (simp split: if_splits)
  with m have m': "bestCr = f bestL \<and> bestCr \<ge> target" by simp
  from refine_pure_met[OF r m'] have "bC' = f bL' \<and> bC' \<ge> target" .
  with m' show ?thesis unfolding e by simp
qed

lemma searchBranch_p_met:
  assumes "met (searchBranch_p f lo hi target eps n pref)"
  shows "res_contrast (searchBranch_p f lo hi target eps n pref)
           = f (res_lightness (searchBranch_p f lo hi target eps n pref)) \<and>
         res_contrast (searchBranch_p f lo hi target eps n pref) \<ge> target"
proof -
  obtain low high where b: "bisect_pure n f target eps pref lo hi = (low, high)" by fastforce
  show ?thesis
  proof (cases "f low \<ge> target \<or> f high \<ge> target")
    case True
    then show ?thesis
      using assms by (auto simp: searchBranch_p_def Let_def b split: if_splits)
  next
    case False
    then have e: "f lo < target \<and> f hi < target \<or>
        searchBranch_p f lo hi target eps n pref = coarseScan_p f lo hi target eps n"
      by (auto simp: searchBranch_p_def Let_def b)
    show ?thesis
    proof (cases "f lo < target \<and> f hi < target")
      case True
      with assms show ?thesis by (simp add: searchBranch_p_infeasible split: if_splits)
    next
      case F: False
      with e have "searchBranch_p f lo hi target eps n pref = coarseScan_p f lo hi target eps n"
        by blast
      with assms coarseScan_p_met[of f lo hi target eps n] show ?thesis by simp
    qed
  qed
qed

lemma with_branch_simps [simp]:
  "res_lightness (with_branch r b) = res_lightness r"
  "res_contrast (with_branch r b) = res_contrast r"
  "met (with_branch r b) = met r"
  "branch (with_branch r b) = b"
  by (simp_all add: with_branch_def BranchResult.defs FindLightnessForContrastResult.defs)

lemma find_p_met:
  assumes "met (find_p f target pref minL maxL eps n)"
  shows "res_contrast (find_p f target pref minL maxL eps n)
           = f (res_lightness (find_p f target pref minL maxL eps n)) \<and>
         res_contrast (find_p f target pref minL maxL eps n) \<ge> target"
proof (cases "f pref \<ge> target")
  case True
  then show ?thesis by (simp add: find_p_def)
next
  case False
  let ?d = "searchBranch_p f minL pref target eps n pref"
  let ?l = "searchBranch_p f pref maxL target eps n pref"
  note d = searchBranch_p_met[of f minL pref target eps n pref]
  note l = searchBranch_p_met[of f pref maxL target eps n pref]
  from assms False d l show ?thesis
    by (simp add: find_p_def Let_def split: if_splits)
qed


lemma find_p_unattainable:
  assumes "\<forall>l. min minL pref \<le> l \<and> l \<le> max maxL pref \<longrightarrow> f l < target"
  shows "\<not> met (find_p f target pref minL maxL eps n) \<and>
         res_contrast (find_p f target pref minL maxL eps n)
           = f (res_lightness (find_p f target pref minL maxL eps n)) \<and>
         res_lightness (find_p f target pref minL maxL eps n) \<in> {minL, pref, maxL} \<and>
         min minL pref \<le> res_lightness (find_p f target pref minL maxL eps n) \<and>
         res_lightness (find_p f target pref minL maxL eps n) \<le> max maxL pref \<and>
         f (min minL pref) \<le> res_contrast (find_p f target pref minL maxL eps n) \<and>
         f pref \<le> res_contrast (find_p f target pref minL maxL eps n) \<and>
         f (max maxL pref) \<le> res_contrast (find_p f target pref minL maxL eps n)"
proof -
  have p: "f pref < target" using assms by simp
  have dk: "minL < pref \<Longrightarrow> f minL < target" using assms by simp
  have lt: "pref < maxL \<Longrightarrow> f maxL < target" using assms by simp
  show ?thesis
  proof (cases "minL < pref")
    case d: True
    note D = searchBranch_p_infeasible[of f minL target pref eps n pref, OF dk[OF d] p]
    show ?thesis
    proof (cases "pref < maxL")
      case True
      note L = searchBranch_p_infeasible[of f pref target maxL eps n pref, OF p lt[OF True]]
      from d True p show ?thesis
        by (simp add: find_p_def Let_def D L min_def max_def)
    next
      case False
      with d p show ?thesis
        by (simp add: find_p_def Let_def D min_def max_def)
    qed
  next
    case d: False
    show ?thesis
    proof (cases "pref < maxL")
      case True
      note L = searchBranch_p_infeasible[of f pref target maxL eps n pref, OF p lt[OF True]]
      from d True p show ?thesis
        by (simp add: find_p_def Let_def L min_def max_def)
    next
      case False
      with d p show ?thesis
        by (simp add: find_p_def Let_def min_def max_def)
    qed
  qed
qed



subsection \<open>What the solver returns\<close>

lemma cache_ok_empty: "cache_ok M empty_cache"
  by (simp add: cache_ok_def empty_cache_def)

text \<open>
  C9 (amended). Whenever \<^verbatim>\<open>findLightnessForContrast\<close> returns a result with met = true,
  the returned contrast is at least the resolved target (preset mapped, raw numbers floored
  at 1) and equals the contrast ratio against the base that the solver measures for the
  returned lightness, that is the WCAG ratio of the returned lightness rounded to four
  decimals.
\<close>

theorem met_contrast_reaches_target:
  assumes "cache_ok M c" "met (fst (findLightnessForContrast M options c))"
  shows "res_contrast (fst (findLightnessForContrast M options c)) \<ge> opt_target options \<and>
         res_contrast (fst (findLightnessForContrast M options c))
           = opt_measured M options (res_lightness (fst (findLightnessForContrast M options c)))"
  using assms(2) find_p_met[of "opt_measured M options" "opt_target options"
      "o_preferredLightness options" "fst (opt_range options)" "snd (opt_range options)"
      "opt_epsilon options" "opt_maxIterations options"]
    findLightnessForContrast_pure[OF assms(1), of options]
  by simp

text \<open>
  C2 (amended). When no lightness of the searched interval passes (contrast measured at
  the lightness rounded to four decimals), the result has met = false, its lightness is
  one of the range ends and the preferred lightness, its contrast is the measured
  contrast of that lightness and is at least the measured contrast of both ends of the
  searched interval and of the preferred lightness; it is the maximum over the whole
  interval whenever the measured contrast nowhere exceeds both ends.
\<close>

theorem unattainable_returns_best_endpoint:
  assumes "cache_ok M c"
    and "\<forall>l. search_lo options \<le> l \<and> l \<le> search_hi options \<longrightarrow> \<not> passes M options l"
  shows "\<not> met (fst (findLightnessForContrast M options c)) \<and>
         res_lightness (fst (findLightnessForContrast M options c))
           \<in> {fst (opt_range options), o_preferredLightness options, snd (opt_range options)} \<and>
         search_lo options \<le> res_lightness (fst (findLightnessForContrast M options c)) \<and>
         res_lightness (fst (findLightnessForContrast M options c)) \<le> search_hi options \<and>
         res_contrast (fst (findLightnessForContrast M options c))
           = opt_measured M options (res_lightness (fst (findLightnessForContrast M options c))) \<and>
         opt_measured M options (search_lo options)
           \<le> res_contrast (fst (findLightnessForContrast M options c)) \<and>
         opt_measured M options (o_preferredLightness options)
           \<le> res_contrast (fst (findLightnessForContrast M options c)) \<and>
         opt_measured M options (search_hi options)
           \<le> res_contrast (fst (findLightnessForContrast M options c)) \<and>
         ((\<forall>l. search_lo options \<le> l \<and> l \<le> search_hi options \<longrightarrow>
               opt_measured M options l
                 \<le> max (opt_measured M options (search_lo options))
                       (opt_measured M options (search_hi options))) \<longrightarrow>
          (\<forall>l. search_lo options \<le> l \<and> l \<le> search_hi options \<longrightarrow>
               opt_measured M options l
                 \<le> res_contrast (fst (findLightnessForContrast M options c))))"
proof -
  let ?f = "opt_measured M options"
  let ?r = "find_p ?f (opt_target options) (o_preferredLightness options)
              (fst (opt_range options)) (snd (opt_range options)) (opt_epsilon options)
              (opt_maxIterations options)"
  have e: "fst (findLightnessForContrast M options c) = ?r"
    using findLightnessForContrast_pure[OF assms(1), of options] by simp
  have np: "\<forall>l. min (fst (opt_range options)) (o_preferredLightness options) \<le> l \<and>
      l \<le> max (snd (opt_range options)) (o_preferredLightness options) \<longrightarrow> ?f l < opt_target options"
    using assms(2) by (simp add: search_lo_def search_hi_def passes_def not_le)
  note u = find_p_unattainable[where minL = "fst (opt_range options)"
      and pref = "o_preferredLightness options" and maxL = "snd (opt_range options)"
      and f = ?f and target = "opt_target options" and eps = "opt_epsilon options"
      and n = "opt_maxIterations options", OF np]
  have main: "\<not> met ?r \<and>
         res_lightness ?r \<in> {fst (opt_range options), o_preferredLightness options, snd (opt_range options)} \<and>
         search_lo options \<le> res_lightness ?r \<and> res_lightness ?r \<le> search_hi options \<and>
         res_contrast ?r = ?f (res_lightness ?r) \<and>
         ?f (search_lo options) \<le> res_contrast ?r \<and>
         ?f (o_preferredLightness options) \<le> res_contrast ?r \<and>
         ?f (search_hi options) \<le> res_contrast ?r"
    using u unfolding search_lo_def search_hi_def by blast
  have "(\<forall>l. search_lo options \<le> l \<and> l \<le> search_hi options \<longrightarrow>
               ?f l \<le> max (?f (search_lo options)) (?f (search_hi options))) \<longrightarrow>
          (\<forall>l. search_lo options \<le> l \<and> l \<le> search_hi options \<longrightarrow> ?f l \<le> res_contrast ?r)"
  proof (intro impI allI)
    fix l
    assume q: "\<forall>l. search_lo options \<le> l \<and> l \<le> search_hi options \<longrightarrow>
               ?f l \<le> max (?f (search_lo options)) (?f (search_hi options))"
      and l: "search_lo options \<le> l \<and> l \<le> search_hi options"
    then have "?f l \<le> max (?f (search_lo options)) (?f (search_hi options))" by blast
    also have "\<dots> \<le> res_contrast ?r" using main by simp
    finally show "?f l \<le> res_contrast ?r" .
  qed
  with main show ?thesis unfolding e by blast
qed



subsection \<open>The sample colour math\<close>

lemma lum_sample [simp]: "lum sample_math h s l = l"
  by (simp add: lum_def sample_math_def)

lemma lum_bump [simp]: "lum bump_math h s l = (if l = 1 / 4 then 1 else 0)"
  by (simp add: lum_def bump_math_def)

lemma round4_mono: "l \<le> l' \<Longrightarrow> round4 l \<le> round4 l'"
  unfolding round4_def Math_round_def
  by (intro divide_right_mono iffD2[OF of_int_le_iff] floor_mono) simp_all

lemma round4_0 [simp]: "round4 0 = 0"
  by (simp add: round4_def Math_round_def)

lemma round4_1 [simp]: "round4 1 = 1"
  by (simp add: round4_def Math_round_def)

lemma round4_unit: "0 \<le> l \<Longrightarrow> l \<le> 1 \<Longrightarrow> 0 \<le> round4 l \<and> round4 l \<le> 1"
  using round4_mono[of 0 l] round4_mono[of l 1] by simp

lemma measured_sample_black:
  "0 \<le> l \<Longrightarrow> measured sample_math h s 0 l = 1 + 20 * round4 l"
proof -
  assume "0 \<le> l"
  then have "0 \<le> round4 l" using round4_mono[of 0 l] by simp
  then show ?thesis
    by (simp add: measured_def contrastRatioFromLuminance_def max_def min_def)
qed

lemma black_base [simp]:
  "relativeLuminanceFromLinearRgb sample_math (0, 0, 0) = 0"
  "relativeLuminanceFromLinearRgb bump_math (0, 0, 0) = 0"
  by (simp_all add: sample_math_def bump_math_def)

lemmas solver_eval =
  find_p_def searchBranch_p_def Let_def opt_measured_def opt_target_def opt_range_def
  opt_epsilon_def opt_maxIterations_def solver_options_def measured_def round4_def
  Math_round_def contrastRatioFromLuminance_def

theorem met_contrast_reaches_target_witness:
  "met (fst (findLightnessForContrast sample_math opts_pref_rounds_up empty_cache)) \<and>
   res_contrast (fst (findLightnessForContrast sample_math opts_pref_rounds_up empty_cache)) \<ge> 3 \<and>
   res_contrast (fst (findLightnessForContrast sample_math opts_pref_rounds_up empty_cache))
     = opt_measured sample_math opts_pref_rounds_up
         (res_lightness (fst (findLightnessForContrast sample_math opts_pref_rounds_up empty_cache)))"
proof -
  have e: "fst (findLightnessForContrast sample_math opts_pref_rounds_up empty_cache) =
      \<lparr>res_lightness = 2499 / 25000, res_contrast = 3, met = True, branch = Preferred\<rparr>"
    using findLightnessForContrast_pure[OF cache_ok_empty, of sample_math opts_pref_rounds_up]
    by (simp add: opts_pref_rounds_up_def solver_eval)
  then have m: "met (fst (findLightnessForContrast sample_math opts_pref_rounds_up empty_cache))"
    by simp
  have t: "opt_target opts_pref_rounds_up = 3"
    by (simp add: opts_pref_rounds_up_def solver_eval)
  from met_contrast_reaches_target[OF cache_ok_empty m] m t show ?thesis by simp
qed

text \<open>
  C9 as stated fails: for the preferred lightness 0.09996 on a black base and the target
  3, the solver measures the contrast of the rounded lightness 0.1, which is 3, and
  returns met = true with the lightness 0.09996 and the contrast 3; the WCAG contrast
  ratio of the returned lightness itself is 2.9992, below the target.
\<close>

theorem met_contrast_counterexample:
  "met (fst (findLightnessForContrast sample_math opts_pref_rounds_up empty_cache)) \<and>
   res_lightness (fst (findLightnessForContrast sample_math opts_pref_rounds_up empty_cache))
     = 2499 / 25000 \<and>
   res_contrast (fst (findLightnessForContrast sample_math opts_pref_rounds_up empty_cache)) = 3 \<and>
   opt_target opts_pref_rounds_up = 3 \<and>
   wcag_contrast sample_math 0 0 0 (2499 / 25000) = 3749 / 1250 \<and>
   wcag_contrast sample_math 0 0 0 (2499 / 25000) < opt_target opts_pref_rounds_up"
proof -
  have e: "fst (findLightnessForContrast sample_math opts_pref_rounds_up empty_cache) =
      \<lparr>res_lightness = 2499 / 25000, res_contrast = 3, met = True, branch = Preferred\<rparr>"
    using findLightnessForContrast_pure[OF cache_ok_empty, of sample_math opts_pref_rounds_up]
    by (simp add: opts_pref_rounds_up_def solver_eval)
  have t: "opt_target opts_pref_rounds_up = 3"
    by (simp add: opts_pref_rounds_up_def solver_eval)
  have w: "wcag_contrast sample_math 0 0 0 (2499 / 25000) = 3749 / 1250"
    by (simp add: wcag_contrast_def contrastRatioFromLuminance_def)
  from e t w show ?thesis by simp
qed







lemma opts_mid_30_facts:
  "opt_range opts_mid_30 = (0, 1)" "o_preferredLightness opts_mid_30 = 1 / 2"
  "opt_target opts_mid_30 = 30" "search_lo opts_mid_30 = 0" "search_hi opts_mid_30 = 1"
  by (simp_all add: opts_mid_30_def solver_options_def opt_range_def opt_target_def
      search_lo_def search_hi_def)

lemma measured_mid_30:
  "0 \<le> l \<Longrightarrow> opt_measured sample_math opts_mid_30 l = 1 + 20 * round4 l"
  using measured_sample_black[of l 0 0]
  by (simp add: opt_measured_def opts_mid_30_def solver_options_def)

theorem unattainable_returns_best_endpoint_witness:
  "\<not> met (fst (findLightnessForContrast sample_math opts_mid_30 empty_cache)) \<and>
   res_lightness (fst (findLightnessForContrast sample_math opts_mid_30 empty_cache))
     \<in> {0, 1 / 2, 1} \<and>
   21 \<le> res_contrast (fst (findLightnessForContrast sample_math opts_mid_30 empty_cache)) \<and>
   opt_measured sample_math opts_mid_30 (1 / 4)
     \<le> res_contrast (fst (findLightnessForContrast sample_math opts_mid_30 empty_cache))"
proof -
  let ?r = "fst (findLightnessForContrast sample_math opts_mid_30 empty_cache)"
  have b: "\<And>l. 0 \<le> l \<Longrightarrow> l \<le> 1 \<Longrightarrow> opt_measured sample_math opts_mid_30 l \<le> 21"
    using round4_unit by (simp add: measured_mid_30)
  have np: "\<forall>l. search_lo opts_mid_30 \<le> l \<and> l \<le> search_hi opts_mid_30
              \<longrightarrow> \<not> passes sample_math opts_mid_30 l"
  proof (intro allI impI)
    fix l assume "search_lo opts_mid_30 \<le> l \<and> l \<le> search_hi opts_mid_30"
    then have "opt_measured sample_math opts_mid_30 l \<le> 21"
      using b by (simp add: opts_mid_30_facts)
    then show "\<not> passes sample_math opts_mid_30 l"
      by (simp add: passes_def opts_mid_30_facts)
  qed
  have m1: "opt_measured sample_math opts_mid_30 1 = 21"
    by (simp add: measured_mid_30)
  have qc: "\<forall>l. search_lo opts_mid_30 \<le> l \<and> l \<le> search_hi opts_mid_30 \<longrightarrow>
      opt_measured sample_math opts_mid_30 l
        \<le> max (opt_measured sample_math opts_mid_30 (search_lo opts_mid_30))
              (opt_measured sample_math opts_mid_30 (search_hi opts_mid_30))"
    using b by (simp add: opts_mid_30_facts m1 max_def)
  note t = unattainable_returns_best_endpoint[OF cache_ok_empty np]
  from t have 1: "\<not> met ?r" by blast
  from t have 2: "res_lightness ?r \<in> {0, 1 / 2, 1}" by (simp add: opts_mid_30_facts)
  from t have "opt_measured sample_math opts_mid_30 (search_hi opts_mid_30) \<le> res_contrast ?r"
    by blast
  then have 3: "21 \<le> res_contrast ?r" by (simp add: opts_mid_30_facts m1)
  from t qc have "\<forall>l. search_lo opts_mid_30 \<le> l \<and> l \<le> search_hi opts_mid_30 \<longrightarrow>
      opt_measured sample_math opts_mid_30 l \<le> res_contrast ?r" by blast
  then have "search_lo opts_mid_30 \<le> 1 / 4 \<and> 1 / 4 \<le> search_hi opts_mid_30 \<longrightarrow>
      opt_measured sample_math opts_mid_30 (1 / 4) \<le> res_contrast ?r" by (rule spec)
  then have 4: "opt_measured sample_math opts_mid_30 (1 / 4) \<le> res_contrast ?r"
    by (simp add: opts_mid_30_facts)
  from 1 2 3 4 show ?thesis by blast
qed

text \<open>
  C2 as stated fails. On a grey base of luminance 0.1792, with the range [0.00004, 1] and
  the unattainable target 21, the solver returns the lightness 0.00004 with the contrast
  4.584 it measures at the rounded lightness 0; the WCAG ratio of 0.00004 is 1910/417,
  below the ratio 875/191 that the lightness 1 of the range achieves. Under a luminance
  that is not monotone, the solver returns the end 0 with ratio 1 while the lightness
  0.25 of the range achieves 21.
\<close>

theorem unattainable_counterexample:
  "(opt_range opts_grey_base = (1 / 25000, 1) \<and> opt_target opts_grey_base = 21 \<and>
    \<not> (\<exists>l. 1 / 25000 \<le> l \<and> l \<le> 1 \<and> 21 \<le> wcag_contrast sample_math 0 0 (112 / 625) l) \<and>
    fst (findLightnessForContrast sample_math opts_grey_base empty_cache)
      = \<lparr>res_lightness = 1 / 25000, res_contrast = 573 / 125, met = False, branch = Darker\<rparr> \<and>
    wcag_contrast sample_math 0 0 (112 / 625) (1 / 25000) = 1910 / 417 \<and>
    wcag_contrast sample_math 0 0 (112 / 625) 1 = 875 / 191 \<and>
    wcag_contrast sample_math 0 0 (112 / 625) (1 / 25000)
      < wcag_contrast sample_math 0 0 (112 / 625) 1) \<and>
   (opt_range opts_mid_30 = (0, 1) \<and> opt_target opts_mid_30 = 30 \<and>
    \<not> (\<exists>l. 0 \<le> l \<and> l \<le> 1 \<and> 30 \<le> wcag_contrast bump_math 0 0 0 l) \<and>
    fst (findLightnessForContrast bump_math opts_mid_30 empty_cache)
      = \<lparr>res_lightness = 0, res_contrast = 1, met = False, branch = Darker\<rparr> \<and>
    wcag_contrast bump_math 0 0 0 0 = 1 \<and>
    wcag_contrast bump_math 0 0 0 (1 / 4) = 21)"
proof -
  have yb: "relativeLuminanceFromLinearRgb sample_math (112 / 625, 112 / 625, 112 / 625) = 112 / 625"
    by (simp add: sample_math_def)
  have a: "fst (findLightnessForContrast sample_math opts_grey_base empty_cache)
      = \<lparr>res_lightness = 1 / 25000, res_contrast = 573 / 125, met = False, branch = Darker\<rparr>"
    using findLightnessForContrast_pure[OF cache_ok_empty, of sample_math opts_grey_base]
    by (simp add: opts_grey_base_def solver_eval yb with_branch_def
        BranchResult.defs FindLightnessForContrastResult.defs)
  have a1: "opt_range opts_grey_base = (1 / 25000, 1) \<and> opt_target opts_grey_base = 21"
    by (simp add: opts_grey_base_def solver_options_def opt_range_def opt_target_def)
  have a2: "\<not> (\<exists>l. 1 / 25000 \<le> l \<and> l \<le> 1 \<and> 21 \<le> wcag_contrast sample_math 0 0 (112 / 625) l)"
    by (auto simp: wcag_contrast_def contrastRatioFromLuminance_def max_def min_def field_simps)
  have a3: "wcag_contrast sample_math 0 0 (112 / 625) (1 / 25000) = 1910 / 417 \<and>
    wcag_contrast sample_math 0 0 (112 / 625) 1 = 875 / 191"
    by (simp add: wcag_contrast_def contrastRatioFromLuminance_def)
  have b: "fst (findLightnessForContrast bump_math opts_mid_30 empty_cache)
      = \<lparr>res_lightness = 0, res_contrast = 1, met = False, branch = Darker\<rparr>"
    using findLightnessForContrast_pure[OF cache_ok_empty, of bump_math opts_mid_30]
    by (simp add: opts_mid_30_def solver_eval with_branch_def
        BranchResult.defs FindLightnessForContrastResult.defs)
  have b2: "\<not> (\<exists>l. 0 \<le> l \<and> l \<le> 1 \<and> 30 \<le> wcag_contrast bump_math 0 0 0 l)"
    by (simp add: wcag_contrast_def contrastRatioFromLuminance_def)
  have b3: "wcag_contrast bump_math 0 0 0 0 = 1 \<and> wcag_contrast bump_math 0 0 0 (1 / 4) = 21"
    by (simp add: wcag_contrast_def contrastRatioFromLuminance_def)
  from a a1 a2 a3 b b2 b3 show ?thesis by (simp add: opts_mid_30_facts)
qed


subsection \<open>The cache and the resolver\<close>

lemma resolveDependentColor_cache:
  assumes "cache_ok M c" "cache_ok M c'"
  shows "fst (resolveDependentColor M globalConfig nm d ctx isHighContrast isDark effectiveHue c)
           = fst (resolveDependentColor M globalConfig nm d ctx isHighContrast isDark effectiveHue c') \<and>
         cache_ok M (snd (resolveDependentColor M globalConfig nm d ctx isHighContrast isDark
                            effectiveHue c))"
proof -
  have f: "fst (findLightnessForContrast M options c) = fst (findLightnessForContrast M options c')"
    for options
    using findLightnessForContrast_cache_independent[OF assms] .
  have k: "cache_ok M (snd (findLightnessForContrast M options c))" for options
    using findLightnessForContrast_pure[OF assms(1)] by blast
  show ?thesis
    using assms(1) f k
    by (auto simp: resolveDependentColor_def Let_def split_beta split: option.splits)
qed

lemma resolveColorForScheme_cache:
  assumes "cache_ok M c" "cache_ok M c'"
  shows "fst (resolveColorForScheme M globalConfig nm d ctx isDark isHighContrast c)
           = fst (resolveColorForScheme M globalConfig nm d ctx isDark isHighContrast c') \<and>
         cache_ok M (snd (resolveColorForScheme M globalConfig nm d ctx isDark isHighContrast c))"
  using assms(1) resolveDependentColor_cache[OF assms]
  by (auto simp: resolveColorForScheme_def Let_def split_beta split: sum.splits)

lemma evalPass_cache:
  assumes "cache_ok M c" "cache_ok M c'"
  shows "fst (evalPass M globalConfig isDark isHighContrast entry order ctx vmap c)
           = fst (evalPass M globalConfig isDark isHighContrast entry order ctx vmap c') \<and>
         cache_ok M (snd (evalPass M globalConfig isDark isHighContrast entry order ctx vmap c))"
  using assms
proof (induction order arbitrary: ctx vmap c c')
  case Nil
  then show ?case by simp
next
  case (Cons nm rest)
  show ?case
  proof (cases "map_of (ctx_defs ctx) nm")
    case None
    with Cons.prems show ?thesis by simp
  next
    case (Some d)
    obtain r c1 where r: "resolveColorForScheme M globalConfig nm d ctx isDark isHighContrast c = (r, c1)"
      by fastforce
    obtain r' c1' where r': "resolveColorForScheme M globalConfig nm d ctx isDark isHighContrast c' = (r', c1')"
      by fastforce
    from resolveColorForScheme_cache[OF Cons.prems, of globalConfig nm d ctx isDark isHighContrast] r r'
    have eq: "r' = r" and ok1: "cache_ok M c1" by simp_all
    from resolveColorForScheme_cache[OF Cons.prems(2,1), of globalConfig nm d ctx isDark isHighContrast] r'
    have ok1': "cache_ok M c1'" by simp
    show ?thesis
    proof (cases r)
      case (Inl e)
      with Some r r' eq ok1 show ?thesis by simp
    next
      case (Inr variant)
      show ?thesis
      proof (cases "entry nm d variant (resolved ctx)")
        case (Inl e)
        with Some r r' eq ok1 Inr show ?thesis by simp
      next
        case rc: (Inr rc)
        from Cons.IH[OF ok1 ok1'] Some r r' eq Inr rc show ?thesis by simp
      qed
    qed
  qed
qed


lemma evalPass_cache_pair:
  assumes "cache_ok M c" "cache_ok M c'"
  obtains r c1 c1' where
    "evalPass M globalConfig isDark isHighContrast entry order ctx vmap c = (r, c1)"
    "evalPass M globalConfig isDark isHighContrast entry order ctx vmap c' = (r, c1')"
    "cache_ok M c1" "cache_ok M c1'"
proof -
  obtain r c1 where a: "evalPass M globalConfig isDark isHighContrast entry order ctx vmap c = (r, c1)"
    by fastforce
  obtain r' c1' where b: "evalPass M globalConfig isDark isHighContrast entry order ctx vmap c' = (r', c1')"
    by fastforce
  from evalPass_cache[OF assms, of globalConfig isDark isHighContrast entry order ctx vmap] a b
  have "r' = r" "cache_ok M c1" by simp_all
  moreover from evalPass_cache[OF assms(2,1), of globalConfig isDark isHighContrast entry order ctx vmap] b
  have "cache_ok M c1'" by simp
  ultimately show ?thesis using a b that by blast
qed

lemma resolveAllColors_cache:
  assumes "cache_ok M c" "cache_ok M c'"
  shows "fst (resolveAllColors M globalConfig seedHue seedSaturation defs c)
           = fst (resolveAllColors M globalConfig seedHue seedSaturation defs c') \<and>
         cache_ok M (snd (resolveAllColors M globalConfig seedHue seedSaturation defs c))"
proof (cases "validateColorDefs defs")
  case (Inl e)
  with assms show ?thesis by (simp add: resolveAllColors_def)
next
  case v: (Inr u)
  show ?thesis
  proof (cases "topoSort defs")
    case (Inl e)
    with v assms show ?thesis by (simp add: resolveAllColors_def)
  next
    case t: (Inr order)
    let ?ctx = "\<lparr>ctx_hue = seedHue, ctx_saturation = seedSaturation, ctx_defs = defs,
                resolved = []\<rparr>"
    obtain r1 c1 c1' where
      e1: "evalPass M globalConfig False False pass1_entry order ?ctx [] c = (r1, c1)"
      and e1': "evalPass M globalConfig False False pass1_entry order ?ctx [] c' = (r1, c1')"
      and k1: "cache_ok M c1" "cache_ok M c1'"
      using evalPass_cache_pair[OF assms] by blast
    show ?thesis
    proof (cases r1)
      case (Inl e)
      with v t e1 e1' k1 show ?thesis by (simp add: resolveAllColors_def)
    next
      case (Inr p1)
      obtain ctx1 lightMap where p1: "r1 = Inr (ctx1, lightMap)" using Inr by (cases p1) simp
      show ?thesis
      proof (cases "setPass (prep2_entry lightMap) order (resolved ctx1)")
        case (Inl e)
        with v t e1 e1' k1 p1 show ?thesis by (simp add: resolveAllColors_def)
      next
        case s2: (Inr res2)
        obtain r2 c2 c2' where
          e2: "evalPass M globalConfig False True pass2_entry order (ctx1\<lparr>resolved := res2\<rparr>) [] c1 = (r2, c2)"
          and e2': "evalPass M globalConfig False True pass2_entry order (ctx1\<lparr>resolved := res2\<rparr>) [] c1' = (r2, c2')"
          and k2: "cache_ok M c2" "cache_ok M c2'"
          using evalPass_cache_pair[OF k1] by blast
        show ?thesis
        proof (cases r2)
          case (Inl e)
          with v t e1 e1' p1 s2 e2 e2' k2 show ?thesis by (simp add: resolveAllColors_def)
        next
          case (Inr p2)
          obtain ctx2 lightHCMap where p2: "r2 = Inr (ctx2, lightHCMap)" using Inr by (cases p2) simp
          show ?thesis
          proof (cases "setPass (prep3_entry defs lightMap lightHCMap) order (resolved ctx2)")
            case (Inl e)
            with v t e1 e1' p1 s2 e2 e2' k2 p2 show ?thesis by (simp add: resolveAllColors_def)
          next
            case s3: (Inr res3)
            obtain r3 c3 c3' where
              e3: "evalPass M globalConfig True False pass3_entry order (ctx2\<lparr>resolved := res3\<rparr>) [] c2 = (r3, c3)"
              and e3': "evalPass M globalConfig True False pass3_entry order (ctx2\<lparr>resolved := res3\<rparr>) [] c2' = (r3, c3')"
              and k3: "cache_ok M c3" "cache_ok M c3'"
              using evalPass_cache_pair[OF k2] by blast
            show ?thesis
            proof (cases r3)
              case (Inl e)
              with v t e1 e1' p1 s2 e2 e2' p2 s3 e3 e3' k3 show ?thesis
                by (simp add: resolveAllColors_def)
            next
              case (Inr p3)
              obtain ctx3 darkMap where p3: "r3 = Inr (ctx3, darkMap)" using Inr by (cases p3) simp
              show ?thesis
              proof (cases "setPass (prep4_entry darkMap) order (resolved ctx3)")
                case (Inl e)
                with v t e1 e1' p1 s2 e2 e2' p2 s3 e3 e3' k3 p3 show ?thesis
                  by (simp add: resolveAllColors_def)
              next
                case s4: (Inr res4)
                obtain r4 c4 c4' where
                  e4: "evalPass M globalConfig True True pass4_entry order (ctx3\<lparr>resolved := res4\<rparr>) [] c3 = (r4, c4)"
                  and e4': "evalPass M globalConfig True True pass4_entry order (ctx3\<lparr>resolved := res4\<rparr>) [] c3' = (r4, c4')"
                  and k4: "cache_ok M c4" "cache_ok M c4'"
                  using evalPass_cache_pair[OF k3] by blast
                show ?thesis
                proof (cases r4)
                  case (Inl e)
                  with v t e1 e1' p1 s2 e2 e2' p2 s3 e3 e3' p3 s4 e4 e4' k4 show ?thesis
                    by (simp add: resolveAllColors_def)
                next
                  case (Inr p4)
                  obtain ctx4 darkHCMap where p4: "r4 = Inr (ctx4, darkHCMap)"
                    using Inr by (cases p4) simp
                  from v t e1 e1' p1 s2 e2 e2' p2 s3 e3 e3' p3 s4 e4 e4' k4 p4 show ?thesis
                    by (simp add: resolveAllColors_def split: sum.splits)
                qed
              qed
            qed
          qed
        qed
      qed
    qed
  qed
qed


lemma reachable_cache_ok: "reachable_cache M c \<Longrightarrow> cache_ok M c"
proof (induction rule: reachable_cache.induct)
  case initial
  show ?case by (rule cache_ok_empty)
next
  case (solver_call c options)
  then show ?case using findLightnessForContrast_pure by blast
next
  case (resolve_call c globalConfig seedHue seedSaturation defs)
  then show ?case using resolveAllColors_cache by blast
qed

text \<open>
  C7. Two calls of \<^verbatim>\<open>resolve\<close> with the same seed hue, seed saturation, colour map and
  configuration return equal results whatever the luminance cache holds at the time of
  each call, for all the contents the cache can have: the empty cache and every cache
  left by earlier calls of the solver and of \<^verbatim>\<open>resolve\<close>.
\<close>

theorem resolve_independent_of_cache:
  assumes "reachable_cache M c1" "reachable_cache M c2"
  shows "fst (resolveAllColors M globalConfig seedHue seedSaturation defs c1)
           = fst (resolveAllColors M globalConfig seedHue seedSaturation defs c2)"
  using resolveAllColors_cache[OF reachable_cache_ok[OF assms(1)] reachable_cache_ok[OF assms(2)]]
  by simp

theorem resolve_independent_of_cache_witness:
  "snd (findLightnessForContrast sample_math opts_pref_rounds_up empty_cache)
     = \<lparr>luminanceCache = [((0, 0, 1 / 10), 1 / 10)], cacheOrder = [(0, 0, 1 / 10)]\<rparr> \<and>
   fst (resolveAllColors sample_math defaultConfig 280 80 surface_text_aaa
          (snd (findLightnessForContrast sample_math opts_pref_rounds_up empty_cache)))
     = fst (resolveAllColors sample_math defaultConfig 280 80 surface_text_aaa empty_cache)"
proof -
  have "snd (findLightnessForContrast sample_math opts_pref_rounds_up empty_cache)
     = \<lparr>luminanceCache = [((0, 0, 1 / 10), 1 / 10)], cacheOrder = [(0, 0, 1 / 10)]\<rparr>"
    by (simp add: findLightnessForContrast_def opts_pref_rounds_up_def solver_options_def
        Let_def cachedLuminance_def empty_cache_def Math_round_def sample_math_def
        contrastRatioFromLuminance_def CACHE_SIZE_def)
  moreover have
    "reachable_cache sample_math
       (snd (findLightnessForContrast sample_math opts_pref_rounds_up empty_cache))"
    by (rule solver_call[OF initial])
  from resolve_independent_of_cache[OF this initial]
  have "fst (resolveAllColors sample_math defaultConfig 280 80 surface_text_aaa
          (snd (findLightnessForContrast sample_math opts_pref_rounds_up empty_cache)))
     = fst (resolveAllColors sample_math defaultConfig 280 80 surface_text_aaa empty_cache)" .
  ultimately show ?thesis by blast
qed

end
